theory Spec2Isabelle
  imports Main "HOL-Library.Multiset" "HOL-Library.Sublist"
begin

section \<open>Data model (scanner/repositoryScanner.ts)\<close>

text \<open>
  The three interfaces of the scanner. An optional field (\<open>branch?: string\<close>) is an
  \<open>option\<close>: \<open>None\<close> is JavaScript's \<open>undefined\<close>. Field names carry a prefix where two
  interfaces share a name (\<open>name\<close>, \<open>path\<close>).
\<close>

record RemoteInfo =
  remote_name :: string
  fetchUrl :: "string option"
  pushUrl :: "string option"

record WorktreeInfo =
  wt_name :: string
  wt_path :: string
  branch :: "string option"
  isMain :: bool
  isDetached :: bool
  commitHash :: "string option"
  commitMessage :: "string option"

record RepositoryInfo =
  repo_path :: string
  repo_name :: string
  remotes :: "RemoteInfo list"
  currentBranch :: "string option"
  isSubmodule :: bool
  worktrees :: "WorktreeInfo list"
  lastScanned :: string

text \<open>
  What the scanner takes from outside the repository: the minimatch ignore matchers built
  from the configuration, Node's \<open>path\<close> module, the clock and the simple-git calls. A git
  call that throws is \<open>None\<close>. \<open>gitStatus\<close> gives \<open>status.current\<close> (which may be null),
  \<open>gitLog\<close> gives \<open>log.latest\<close> (which may be null) as a pair of hash and message.
\<close>

record host =
  shouldIgnorePath :: "string \<Rightarrow> bool"
  pathJoin :: "string \<Rightarrow> string \<Rightarrow> string"
  pathNormalize :: "string \<Rightarrow> string"
  pathBasename :: "string \<Rightarrow> string"
  simpleGit :: "string \<Rightarrow> bool"
  gitStatus :: "string \<Rightarrow> string option option"
  gitRemotes :: "string \<Rightarrow> RemoteInfo list option"
  gitWorktreeList :: "string \<Rightarrow> string option"
  gitLog :: "string \<Rightarrow> (string \<times> string) option option"
  now :: string

section \<open>String helpers\<close>

text \<open>\<open>s.startsWith(p)\<close>, and \<open>s.split(c)\<close> for a one-character separator.\<close>

definition startsWith :: "string \<Rightarrow> string \<Rightarrow> bool" where
  "startsWith p s = (take (length p) s = p)"

fun splitOn :: "char \<Rightarrow> string \<Rightarrow> string list" where
  "splitOn c [] = [[]]"
| "splitOn c (x # xs) =
     (if x = c then [] # splitOn c xs
      else (case splitOn c xs of [] \<Rightarrow> [[x]] | y # ys \<Rightarrow> (x # y) # ys))"

definition newline :: char where
  "newline = CHR 0x0A"

section \<open>Worktree parsing (extractRepositoryInfo, lines 216-282)\<close>

text \<open>
  \<open>currentWorktree\<close> is a \<open>Partial<WorktreeInfo>\<close>: the empty object \<open>{}\<close> is \<open>None\<close>.
  The test \<open>if (currentWorktree.path)\<close> is a truthiness test, so an empty path counts as
  no path.
\<close>

definition hasPath :: "WorktreeInfo option \<Rightarrow> bool" where
  "hasPath cur = (case cur of None \<Rightarrow> False | Some w \<Rightarrow> wt_path w \<noteq> [])"

definition newWorktree :: "string \<Rightarrow> WorktreeInfo" where
  "newWorktree p =
     \<lparr>wt_name = [], wt_path = p, branch = None, isMain = False, isDetached = False,
      commitHash = None, commitMessage = None\<rparr>"

text \<open>One iteration of \<open>for (const line of lines)\<close> on the pair (worktrees, currentWorktree).\<close>

definition parseLine ::
  "string \<Rightarrow> WorktreeInfo list \<times> WorktreeInfo option \<Rightarrow> WorktreeInfo list \<times> WorktreeInfo option"
where
  "parseLine line st =
     (case st of (wts, cur) \<Rightarrow>
        if startsWith ''worktree '' line then
          ((case cur of Some w \<Rightarrow> if hasPath cur then wts @ [w] else wts | None \<Rightarrow> wts),
           Some (newWorktree (drop (length ''worktree '') line)))
        else if startsWith ''HEAD '' line then
          (let ref = drop (length ''HEAD '') line in
           case cur of
             Some w \<Rightarrow>
               if hasPath cur then
                 (wts, Some (w\<lparr>branch := Some (if startsWith ''refs/heads/'' ref
                                                 then drop (length ''refs/heads/'') ref else ref),
                               commitHash := Some (take 8 ref)\<rparr>))
               else st
           | None \<Rightarrow> st)
        else if startsWith ''branch '' line then
          (case cur of
             Some w \<Rightarrow>
               if hasPath cur then
                 (wts, Some (w\<lparr>branch := Some (drop (length ''branch refs/heads/'') line)\<rparr>))
               else st
           | None \<Rightarrow> st)
        else if line = ''detached'' then
          (case cur of
             Some w \<Rightarrow> if hasPath cur then (wts, Some (w\<lparr>isDetached := True\<rparr>)) else st
           | None \<Rightarrow> st)
        else if line = [] then
          (case cur of
             Some w \<Rightarrow> if hasPath cur then (wts @ [w], None) else st
           | None \<Rightarrow> st)
        else st)"

text \<open>The loop over the lines, then the push after the loop (lines 260-262).\<close>

definition parseWorktrees :: "string \<Rightarrow> WorktreeInfo list" where
  "parseWorktrees txt =
     (case fold parseLine (splitOn newline txt) ([], None) of
        (wts, cur) \<Rightarrow>
          (case cur of Some w \<Rightarrow> if hasPath cur then wts @ [w] else wts | None \<Rightarrow> wts))"

text \<open>
  The body of \<open>for (const wt of worktrees)\<close> (lines 264-282): name and isMain are set, then
  the commit lookup runs inside its own try; when it throws, or when \<open>log.latest\<close> is null,
  the record is left as it is.
\<close>

definition finishWorktree :: "host \<Rightarrow> string \<Rightarrow> WorktreeInfo \<Rightarrow> WorktreeInfo" where
  "finishWorktree h repoPath wt =
     (let wt1 = wt\<lparr>wt_name := pathBasename h (wt_path wt),
                    isMain := (pathNormalize h (wt_path wt) = pathNormalize h repoPath)\<rparr>
      in case gitLog h (wt_path wt) of
           Some (Some (hash, message)) \<Rightarrow>
             wt1\<lparr>commitHash := Some (take 8 hash),
                 commitMessage := (case splitOn newline message of [] \<Rightarrow> None | l # _ \<Rightarrow> Some l)\<rparr>
         | _ \<Rightarrow> wt1)"

text \<open>
  \<open>extractRepositoryInfo\<close>: \<open>None\<close> is the \<open>null\<close> of the outer catch, reached only when
  \<open>simpleGit(repoPath)\<close> throws; each of the three queries has its own try and falls back
  to undefined or to the empty list.
\<close>

definition extractRepositoryInfo :: "host \<Rightarrow> string \<Rightarrow> bool \<Rightarrow> RepositoryInfo option" where
  "extractRepositoryInfo h repoPath isGitFile =
     (if \<not> simpleGit h repoPath then None
      else Some
        \<lparr>repo_path = repoPath,
         repo_name = pathBasename h repoPath,
         remotes = (case gitRemotes h repoPath of Some rs \<Rightarrow> rs | None \<Rightarrow> []),
         currentBranch =
           (case gitStatus h repoPath of
              Some (Some b) \<Rightarrow> if b = [] then None else Some b
            | _ \<Rightarrow> None),
         isSubmodule = isGitFile,
         worktrees =
           (case gitWorktreeList h repoPath of
              Some txt \<Rightarrow> map (finishWorktree h repoPath) (parseWorktrees txt)
            | None \<Rightarrow> []),
         lastScanned = now h\<rparr>)"

section \<open>Directory scan (RepositoryScanner.scanPath)\<close>

text \<open>
  The directory tree that \<open>fs.readdir(dirPath, {withFileTypes: true})\<close> shows. A
  \<open>Dirent\<close> has exactly one kind; a symbolic link is a \<open>SymLink\<close> whatever it points
  to. \<open>Unreadable\<close> is a directory whose \<open>readdir\<close> throws; \<open>readdir\<close> of anything
  that is not a directory throws as well.
\<close>

datatype fsnode = RegFile | SymLink | OtherEntry | Unreadable | Dir "dirent list"
and dirent = Dirent (d_name: string) (d_node: fsnode)

definition isFile :: "fsnode \<Rightarrow> bool" where
  "isFile n = (n = RegFile)"

definition isSymbolicLink :: "fsnode \<Rightarrow> bool" where
  "isSymbolicLink n = (n = SymLink)"

definition isDirectory :: "fsnode \<Rightarrow> bool" where
  "isDirectory n = (case n of Dir _ \<Rightarrow> True | Unreadable \<Rightarrow> True | _ \<Rightarrow> False)"

definition MAX_DEPTH :: nat where
  "MAX_DEPTH = 10"

definition SKIP_DIRECTORIES :: "string list" where
  "SKIP_DIRECTORIES = [''node_modules'', ''.vscode'', ''dist'', ''build'', ''target'', ''.git'']"

text \<open>
  The state of one \<open>scanPath\<close> call is the pair of \<open>repositories\<close> and \<open>seenPaths\<close>.
  \<open>scanDir\<close> is the inner \<open>scan\<close> closure; \<open>scanEntries\<close> is its \<open>for (const entry of
  entries)\<close> loop. The catch around \<open>readdir\<close> is the last branch of \<open>scanDir\<close>: nothing
  else in the try block can throw, since \<open>extractRepositoryInfo\<close> catches everything.
\<close>

type_synonym scan_state = "RepositoryInfo list \<times> string set"

fun scanDir :: "host \<Rightarrow> nat \<Rightarrow> string \<Rightarrow> fsnode \<Rightarrow> scan_state \<Rightarrow> scan_state"
and scanEntries :: "host \<Rightarrow> nat \<Rightarrow> string \<Rightarrow> dirent list \<Rightarrow> scan_state \<Rightarrow> scan_state"
where
  "scanDir h depth dirPath node st =
     (if depth > MAX_DEPTH then st
      else if shouldIgnorePath h dirPath then st
      else
        (case node of
           Dir entries \<Rightarrow>
             (case find (\<lambda>e. d_name e = ''.git'') entries of
                Some gitEntry \<Rightarrow>
                  if isFile (d_node gitEntry) then st
                  else
                    (let normalizedPath = pathNormalize h dirPath in
                     if normalizedPath \<in> snd st then st
                     else
                       (case extractRepositoryInfo h dirPath (isFile (d_node gitEntry)) of
                          Some repoInfo \<Rightarrow> (fst st @ [repoInfo], insert normalizedPath (snd st))
                        | None \<Rightarrow> (fst st, insert normalizedPath (snd st))))
              | None \<Rightarrow> scanEntries h depth dirPath entries st)
         | _ \<Rightarrow> st))"
| "scanEntries h depth dirPath [] st = st"
| "scanEntries h depth dirPath (Dirent name node # entries) st =
     scanEntries h depth dirPath entries
       (if isDirectory node \<and> \<not> isSymbolicLink node then
          (if name \<in> set SKIP_DIRECTORIES then st
           else scanDir h (depth + 1) (pathJoin h dirPath name) node st)
        else st)"

definition scanPath :: "host \<Rightarrow> string \<Rightarrow> fsnode \<Rightarrow> RepositoryInfo list" where
  "scanPath h basePath root = fst (scanDir h 0 basePath root ([], {}))"

section \<open>Remote URL classification (extractDomain, extractOwner)\<close>

text \<open>
  The four regular expressions are matched by hand, in the order in which a backtracking
  matcher tries the alternatives. \<open>(?:git@|ssh:\/\/(?:git@)?)\<close> tries \<open>git@\<close>, then
  \<open>ssh://git@\<close>, then \<open>ssh://\<close>; \<open>https?:\/\/\<close> tries \<open>https://\<close>, then \<open>http://\<close>.
\<close>

definition stripPrefix :: "string \<Rightarrow> string \<Rightarrow> string option" where
  "stripPrefix p s = (if startsWith p s then Some (drop (length p) s) else None)"

fun firstSome :: "('a \<Rightarrow> 'b option) \<Rightarrow> 'a list \<Rightarrow> 'b option" where
  "firstSome f [] = None"
| "firstSome f (x # xs) = (case f x of Some y \<Rightarrow> Some y | None \<Rightarrow> firstSome f xs)"

definition sshPrefixes :: "string list" where
  "sshPrefixes = [''git@'', ''ssh://git@'', ''ssh://'']"

definition httpPrefixes :: "string list" where
  "httpPrefixes = [''https://'', ''http://'']"

text \<open>The longest match of \<open>[^:\/]+\<close> and of \<open>[^\/]+\<close> at the start of a string.\<close>

definition hostRun :: "string \<Rightarrow> string" where
  "hostRun s = takeWhile (\<lambda>c. c \<noteq> CHR '':'' \<and> c \<noteq> CHR ''/'') s"

definition authorityRun :: "string \<Rightarrow> string" where
  "authorityRun s = takeWhile (\<lambda>c. c \<noteq> CHR ''/'') s"

definition nonEmpty :: "string \<Rightarrow> string option" where
  "nonEmpty s = (if s = [] then None else Some s)"

definition extractDomain :: "string \<Rightarrow> string" where
  "extractDomain remoteUrl =
     (case firstSome (\<lambda>p. case stripPrefix p remoteUrl of
                              Some rest \<Rightarrow> nonEmpty (hostRun rest) | None \<Rightarrow> None) sshPrefixes of
        Some d \<Rightarrow> d
      | None \<Rightarrow>
          (case firstSome (\<lambda>p. case stripPrefix p remoteUrl of
                                  Some rest \<Rightarrow> nonEmpty (authorityRun rest) | None \<Rightarrow> None)
                  httpPrefixes of
             Some d \<Rightarrow> d
           | None \<Rightarrow> ''unknown''))"

text \<open>
  \<open>(.+?)(?:\.git)?$\<close> against the whole rest of the string: the dot matches no line
  terminator, the lazy group takes at least one character and stops at the first length
  whose remainder is \<open>.git\<close> or empty. The result is the captured group.
\<close>

definition isLineTerminator :: "char \<Rightarrow> bool" where
  "isLineTerminator c = (c = CHR 0x0A \<or> c = CHR 0x0D)"

definition matchPathTail :: "string \<Rightarrow> string option" where
  "matchPathTail t =
     (if t = [] \<or> list_ex isLineTerminator t then None
      else if length t > 4 \<and> drop (length t - 4) t = ''.git'' then Some (take (length t - 4) t)
      else Some t)"

text \<open>
  \<open>[^:\/]+[:\/ ](.+?)(?:\.git)?$\<close>: the run is tried at its longest length first and then
  shortened; the character after the run has to be a colon, a slash or a space.
\<close>

definition isSeparator :: "char \<Rightarrow> bool" where
  "isSeparator c = (c = CHR '':'' \<or> c = CHR ''/'' \<or> c = CHR '' '')"

fun sshOwnerAt :: "nat \<Rightarrow> string \<Rightarrow> string option" where
  "sshOwnerAt 0 rest = None"
| "sshOwnerAt (Suc k) rest =
     (if Suc k < length rest \<and> isSeparator (rest ! Suc k) then
        (case matchPathTail (drop (Suc (Suc k)) rest) of
           Some c \<Rightarrow> Some c
         | None \<Rightarrow> sshOwnerAt k rest)
      else sshOwnerAt k rest)"

definition sshOwner :: "string \<Rightarrow> string option" where
  "sshOwner rest = sshOwnerAt (length (hostRun rest)) rest"

definition httpsOwner :: "string \<Rightarrow> string option" where
  "httpsOwner rest =
     (let run = authorityRun rest in
      if run \<noteq> [] \<and> length run < length rest then matchPathTail (drop (Suc (length run)) rest)
      else None)"

definition pathSegments :: "string \<Rightarrow> string list" where
  "pathSegments p = filter (\<lambda>s. length s > 0) (splitOn CHR ''/'' p)"

fun joinWith :: "string \<Rightarrow> string list \<Rightarrow> string" where
  "joinWith sep [] = []"
| "joinWith sep [x] = x"
| "joinWith sep (x # y # ys) = x @ sep @ joinWith sep (y # ys)"

text \<open>The first half of \<open>extractOwner\<close>: the value of \<open>pathPart\<close> before \<open>if (!pathPart)\<close>.\<close>

definition urlPathPart :: "string \<Rightarrow> string" where
  "urlPathPart remoteUrl =
     (case firstSome (\<lambda>p. case stripPrefix p remoteUrl of
                              Some rest \<Rightarrow> sshOwner rest | None \<Rightarrow> None) sshPrefixes of
        Some c \<Rightarrow> c
      | None \<Rightarrow>
          (case firstSome (\<lambda>p. case stripPrefix p remoteUrl of
                                  Some rest \<Rightarrow> httpsOwner rest | None \<Rightarrow> None) httpPrefixes of
             Some c \<Rightarrow> c
           | None \<Rightarrow> []))"

definition extractOwner :: "string \<Rightarrow> string" where
  "extractOwner remoteUrl =
     (let pathPart = urlPathPart remoteUrl in
      if pathPart = [] then ''unknown''
      else
        (let segments = pathSegments pathPart in
         if length segments = 0 then ''unknown''
         else if length segments = 1 then joinWith ''/'' segments
         else joinWith ''/'' (butlast segments)))"

section \<open>Tree nodes (treeNodes.ts)\<close>

text \<open>
  \<open>vscode.TreeItemCollapsibleState\<close>, and the node classes with the fields that carry
  structure and workspace state: the collapsible state, and the id of the theme icon, which
  is how a repository or worktree node shows that it is the one currently open. Labels,
  tooltips, commands and resource URIs are presentation and are left out.
\<close>

datatype CollapsibleState = StateNone | Collapsed | Expanded

definition repoContains :: "string \<Rightarrow> RepositoryInfo \<Rightarrow> bool" where
  "repoContains p repo =
     (repo_path repo = p \<or> list_ex (\<lambda>wt. wt_path wt = p) (worktrees repo))"

text \<open>\<open>!currentWorkspacePath\<close> is a truthiness test: undefined and the empty string are falsy.\<close>

definition containsCurrentWorkspace :: "RepositoryInfo list \<Rightarrow> string option \<Rightarrow> bool" where
  "containsCurrentWorkspace repositories currentWorkspacePath =
     (case currentWorkspacePath of
        None \<Rightarrow> False
      | Some p \<Rightarrow> if p = [] then False else list_ex (repoContains p) repositories)"

text \<open>
  \<open>OwnerNode.children\<close> is a \<open>Map<string, OwnerNode | RepositoryNode>\<close>: an association list
  in insertion order. The two classes that can sit in it form one datatype; the other
  node classes are records, and \<open>RepositoryTreeNode\<close> is their union.
\<close>

datatype OwnerOrRepositoryNode =
    OwnerNode (owner: string) (fullPath: string) (on_repositories: "RepositoryInfo list")
      (on_domain: "string option") (on_state: CollapsibleState)
      (children: "(string \<times> OwnerOrRepositoryNode) list")
  | RepositoryNode (repository: RepositoryInfo) (rn_state: CollapsibleState) (rn_icon: string)

record DomainNode =
  dn_domain :: string
  dn_repositories :: "RepositoryInfo list"
  dn_state :: CollapsibleState

record LocalGroupNode =
  lg_repositories :: "RepositoryInfo list"
  lg_state :: CollapsibleState

record WorktreeNode =
  worktree :: WorktreeInfo
  wn_state :: CollapsibleState
  wn_icon :: string
  wn_contextValue :: string

datatype RepositoryTreeNode =
    EmptyState
  | Domain DomainNode
  | OwnerOrRepo OwnerOrRepositoryNode
  | LocalGroup LocalGroupNode
  | Worktree WorktreeNode

text \<open>The constructors.\<close>

definition newDomainNode :: "string \<Rightarrow> RepositoryInfo list \<Rightarrow> string option \<Rightarrow> DomainNode" where
  "newDomainNode domain repositories currentWorkspacePath =
     \<lparr>dn_domain = domain, dn_repositories = repositories,
      dn_state = (if containsCurrentWorkspace repositories currentWorkspacePath
                  then Expanded else Collapsed)\<rparr>"

definition newOwnerNode ::
  "string \<Rightarrow> string \<Rightarrow> RepositoryInfo list \<Rightarrow> string option \<Rightarrow> string option \<Rightarrow> OwnerOrRepositoryNode"
where
  "newOwnerNode own full repositories domain currentWorkspacePath =
     OwnerNode own full repositories domain
       (if containsCurrentWorkspace repositories currentWorkspacePath then Expanded else Collapsed)
       []"

definition newLocalGroupNode :: "RepositoryInfo list \<Rightarrow> LocalGroupNode" where
  "newLocalGroupNode repositories = \<lparr>lg_repositories = repositories, lg_state = Expanded\<rparr>"

definition isCurrentlyOpen :: "RepositoryInfo \<Rightarrow> string option \<Rightarrow> bool" where
  "isCurrentlyOpen repo currentWorkspacePath =
     (case currentWorkspacePath of
        None \<Rightarrow> False
      | Some p \<Rightarrow> p \<noteq> [] \<and> (p = repo_path repo \<or> list_ex (\<lambda>wt. wt_path wt = p) (worktrees repo)))"

definition newRepositoryNode :: "RepositoryInfo \<Rightarrow> string option \<Rightarrow> OwnerOrRepositoryNode" where
  "newRepositoryNode repo currentWorkspacePath =
     (let hasWorktrees = length (worktrees repo) > 1;
          isOpen = isCurrentlyOpen repo currentWorkspacePath
      in RepositoryNode repo
           (if hasWorktrees then (if isOpen then Expanded else Collapsed) else StateNone)
           (if isOpen then ''repo-selected'' else ''repo''))"

definition newWorktreeNode :: "WorktreeInfo \<Rightarrow> string option \<Rightarrow> WorktreeNode" where
  "newWorktreeNode wt currentWorkspacePath =
     (let isOpen = (currentWorkspacePath = Some (wt_path wt))
      in \<lparr>worktree = wt, wn_state = StateNone,
          wn_icon = (if isOpen then ''git-branch'' else ''worktree''),
          wn_contextValue = (if isMain wt then ''mainWorktree'' else ''worktree'')\<rparr>)"

text \<open>
  \<open>Map.prototype.set\<close> and \<open>get\<close> on an insertion-ordered association list: setting an
  existing key keeps its position.
\<close>

fun mapSet :: "'k \<Rightarrow> 'v \<Rightarrow> ('k \<times> 'v) list \<Rightarrow> ('k \<times> 'v) list" where
  "mapSet k v [] = [(k, v)]"
| "mapSet k v ((k', v') # m) = (if k' = k then (k, v) # m else (k', v') # mapSet k v m)"

definition mapGet :: "('k \<times> 'v) list \<Rightarrow> 'k \<Rightarrow> 'v option" where
  "mapGet m k = map_of m k"

text \<open>
  \<open>Array.prototype.sort\<close> with a comparator: a stable sort, here by insertion. The
  comparator returns a negative number, zero or a positive number.
\<close>

fun insertBy :: "('a \<Rightarrow> 'a \<Rightarrow> int) \<Rightarrow> 'a \<Rightarrow> 'a list \<Rightarrow> 'a list" where
  "insertBy cmp x [] = [x]"
| "insertBy cmp x (y # ys) = (if cmp x y \<le> 0 then x # y # ys else y # insertBy cmp x ys)"

definition sortBy :: "('a \<Rightarrow> 'a \<Rightarrow> int) \<Rightarrow> 'a list \<Rightarrow> 'a list" where
  "sortBy cmp xs = foldr (insertBy cmp) xs []"

text \<open>
  The methods of \<open>OwnerNode\<close>. They are defined on the datatype of both classes; a
  \<open>RepositoryNode\<close> has none of them: the second equation of each function is what the
  loop over \<open>children.values()\<close> does with a child that is not an \<open>OwnerNode\<close>.
  \<open>String.prototype.localeCompare\<close> is the parameter \<open>lc\<close>.
\<close>

fun containsCurrentWorkspaceRecursive :: "string \<Rightarrow> OwnerOrRepositoryNode \<Rightarrow> bool" where
  "containsCurrentWorkspaceRecursive p (OwnerNode own full repos dm st chs) =
     (if containsCurrentWorkspace repos (Some p) then True
      else list_ex (\<lambda>child. containsCurrentWorkspaceRecursive p child) (map snd chs))"
| "containsCurrentWorkspaceRecursive p (RepositoryNode repo st icon) = repoContains p repo"

fun updateExpansionState :: "string option \<Rightarrow> OwnerOrRepositoryNode \<Rightarrow> OwnerOrRepositoryNode" where
  "updateExpansionState currentWorkspacePath (OwnerNode own full repos dm st chs) =
     (case currentWorkspacePath of
        None \<Rightarrow> OwnerNode own full repos dm st chs
      | Some p \<Rightarrow>
          if p = [] then OwnerNode own full repos dm st chs
          else
            OwnerNode own full repos dm
              (if containsCurrentWorkspaceRecursive p (OwnerNode own full repos dm st chs)
               then Expanded else st)
              (map (\<lambda>kc. (fst kc, updateExpansionState currentWorkspacePath (snd kc))) chs))"
| "updateExpansionState currentWorkspacePath (RepositoryNode repo st icon) =
     RepositoryNode repo st icon"

fun compareNodes ::
  "(string \<Rightarrow> string \<Rightarrow> int) \<Rightarrow> OwnerOrRepositoryNode \<Rightarrow> OwnerOrRepositoryNode \<Rightarrow> int"
where
  "compareNodes lc (OwnerNode own full repos dm st chs) (RepositoryNode repo st' icon) = - 1"
| "compareNodes lc (RepositoryNode repo st icon) (OwnerNode own full repos dm st' chs) = 1"
| "compareNodes lc (OwnerNode own full repos dm st chs) (OwnerNode own' full' repos' dm' st' chs') =
     lc own own'"
| "compareNodes lc (RepositoryNode repo st icon) (RepositoryNode repo' st' icon') =
     lc (repo_name repo) (repo_name repo')"

fun ownerGetChildren ::
  "(string \<Rightarrow> string \<Rightarrow> int) \<Rightarrow> string option \<Rightarrow> OwnerOrRepositoryNode \<Rightarrow> OwnerOrRepositoryNode list"
where
  "ownerGetChildren lc currentWorkspacePath (OwnerNode own full repos dm st chs) =
     (if length chs > 0 then sortBy (compareNodes lc) (map snd chs)
      else map (\<lambda>repo. newRepositoryNode repo currentWorkspacePath) repos)"
| "ownerGetChildren lc currentWorkspacePath (RepositoryNode repo st icon) = []"

section \<open>Grouping tree (repositoryTreeDataProvider.ts)\<close>

text \<open>
  The provider's fields that the tree depends on are the repository list and the current
  workspace path; both are parameters. The count decorations written to the decoration
  provider do not change the nodes and are left out.
\<close>

definition hasRemote :: "RepositoryInfo \<Rightarrow> bool" where
  "hasRemote repo =
     (case remotes repo of
        [] \<Rightarrow> False
      | r # _ \<Rightarrow> (case fetchUrl r of None \<Rightarrow> False | Some u \<Rightarrow> u \<noteq> []))"

definition firstFetchUrl :: "RepositoryInfo \<Rightarrow> string" where
  "firstFetchUrl repo =
     (case remotes repo of
        [] \<Rightarrow> []
      | r # _ \<Rightarrow> (case fetchUrl r of None \<Rightarrow> [] | Some u \<Rightarrow> u))"

text \<open>One iteration of \<open>for (const repo of reposWithRemote)\<close> on \<open>domainMap\<close>.\<close>

definition addToDomainMap ::
  "RepositoryInfo \<Rightarrow> (string \<times> RepositoryInfo list) list \<Rightarrow> (string \<times> RepositoryInfo list) list"
where
  "addToDomainMap repo domainMap =
     (let domain = extractDomain (firstFetchUrl repo)
      in mapSet domain
           ((case mapGet domainMap domain of None \<Rightarrow> [] | Some repos \<Rightarrow> repos) @ [repo])
           domainMap)"

definition getRemoteViewRootNodes ::
  "RepositoryInfo list \<Rightarrow> string option \<Rightarrow> RepositoryTreeNode list"
where
  "getRemoteViewRootNodes repositories currentWorkspacePath =
     (if length repositories = 0 then [EmptyState]
      else
        (let reposWithRemote = filter hasRemote repositories;
             reposWithoutRemote = filter (\<lambda>repo. \<not> hasRemote repo) repositories;
             domainMap = fold addToDomainMap reposWithRemote []
         in map (\<lambda>(domain, repos). Domain (newDomainNode domain repos currentWorkspacePath))
              domainMap
            @ (if length reposWithoutRemote > 0
               then [LocalGroup (newLocalGroupNode reposWithoutRemote)] else [])))"

text \<open>
  The walk \<open>for (let i = 0; i < segments.length; i++)\<close> of \<open>getOwnerNodes\<close> followed by
  \<open>currentNode.repositories.push(repo)\<close>, as a recursion on the remaining segments. The
  source mutates the nodes along the path in place; each node is referenced by its parent
  only, so rebuilding the path gives the same tree. An existing child that is an
  \<open>OwnerNode\<close> keeps its place in the map; otherwise a new one is set under the segment.
\<close>

fun addRepository ::
  "string \<Rightarrow> string option \<Rightarrow> RepositoryInfo \<Rightarrow> string \<Rightarrow> string list \<Rightarrow> OwnerOrRepositoryNode
   \<Rightarrow> OwnerOrRepositoryNode"
where
  "addRepository domain cwp repo full [] (OwnerNode own fp repos dm st chs) =
     OwnerNode own fp (repos @ [repo]) dm st chs"
| "addRepository domain cwp repo full (segment # segments) (OwnerNode own fp repos dm st chs) =
     (let full' = (if full \<noteq> [] then full @ ''/'' @ segment else segment);
          childNode =
            (case mapGet chs segment of
               Some (OwnerNode own' fp' repos' dm' st' chs') \<Rightarrow>
                 OwnerNode own' fp' repos' dm' st' chs'
             | _ \<Rightarrow> newOwnerNode segment full' [] (Some domain) cwp)
      in OwnerNode own fp repos dm st
           (mapSet segment (addRepository domain cwp repo full' segments childNode) chs))"
| "addRepository domain cwp repo full segments (RepositoryNode r st icon) =
     RepositoryNode r st icon"

text \<open>One iteration of \<open>for (const repo of repositories)\<close> of \<open>getOwnerNodes\<close>.\<close>

definition ownerSegments :: "RepositoryInfo \<Rightarrow> string list" where
  "ownerSegments repo = pathSegments (extractOwner (firstFetchUrl repo))"

definition addToOwnerTree ::
  "string \<Rightarrow> string option \<Rightarrow> RepositoryInfo \<Rightarrow> OwnerOrRepositoryNode \<Rightarrow> OwnerOrRepositoryNode"
where
  "addToOwnerTree domain cwp repo root =
     (if \<not> hasRemote repo then root
      else
        (let segments = ownerSegments repo
         in if length segments = 0 then root
            else addRepository domain cwp repo [] segments root))"

definition buildOwnerTree ::
  "string \<Rightarrow> RepositoryInfo list \<Rightarrow> string option \<Rightarrow> OwnerOrRepositoryNode"
where
  "buildOwnerTree domain repositories cwp =
     updateExpansionState cwp
       (fold (addToOwnerTree domain cwp) repositories (newOwnerNode [] [] [] (Some domain) cwp))"

definition getOwnerNodes ::
  "(string \<Rightarrow> string \<Rightarrow> int) \<Rightarrow> string option \<Rightarrow> string \<Rightarrow> RepositoryInfo list
   \<Rightarrow> OwnerOrRepositoryNode list"
where
  "getOwnerNodes lc cwp domain repositories =
     ownerGetChildren lc cwp (buildOwnerTree domain repositories cwp)"

text \<open>The worktree children of a repository node (getChildren, lines 412-422).\<close>

definition repositoryGetChildren ::
  "(string \<Rightarrow> string \<Rightarrow> int) \<Rightarrow> string option \<Rightarrow> RepositoryInfo \<Rightarrow> WorktreeNode list"
where
  "repositoryGetChildren lc cwp repo =
     (if length (worktrees repo) > 1 then
        map (\<lambda>wt. newWorktreeNode wt cwp)
          (sortBy (\<lambda>a b. lc (wt_name a) (wt_name b))
             (filter (\<lambda>wt. \<not> isMain wt) (worktrees repo)))
      else [])"

text \<open>\<open>getChildren(element?)\<close>: \<open>None\<close> is the call without an element.\<close>

fun getChildren ::
  "(string \<Rightarrow> string \<Rightarrow> int) \<Rightarrow> RepositoryInfo list \<Rightarrow> string option \<Rightarrow> RepositoryTreeNode option
   \<Rightarrow> RepositoryTreeNode list"
where
  "getChildren lc repositories cwp None = getRemoteViewRootNodes repositories cwp"
| "getChildren lc repositories cwp (Some EmptyState) = []"
| "getChildren lc repositories cwp (Some (Domain d)) =
     map OwnerOrRepo (getOwnerNodes lc cwp (dn_domain d) (dn_repositories d))"
| "getChildren lc repositories cwp (Some (OwnerOrRepo (OwnerNode own fp repos dm st chs))) =
     map OwnerOrRepo (ownerGetChildren lc cwp (OwnerNode own fp repos dm st chs))"
| "getChildren lc repositories cwp (Some (LocalGroup g)) =
     map (\<lambda>repo. OwnerOrRepo (newRepositoryNode repo cwp)) (lg_repositories g)"
| "getChildren lc repositories cwp (Some (OwnerOrRepo (RepositoryNode repo st icon))) =
     map Worktree (repositoryGetChildren lc cwp repo)"
| "getChildren lc repositories cwp (Some (Worktree w)) = []"

text \<open>
  The nodes of the tree that the view shows: the root nodes, and the children of every
  node that is shown.
\<close>

inductive treeNode ::
  "(string \<Rightarrow> string \<Rightarrow> int) \<Rightarrow> RepositoryInfo list \<Rightarrow> string option \<Rightarrow> RepositoryTreeNode \<Rightarrow> bool"
  for lc repositories cwp
where
  root: "n \<in> set (getChildren lc repositories cwp None) \<Longrightarrow> treeNode lc repositories cwp n"
| child: "treeNode lc repositories cwp m \<Longrightarrow> n \<in> set (getChildren lc repositories cwp (Some m))
          \<Longrightarrow> treeNode lc repositories cwp n"

section \<open>Notions used to state the properties\<close>




text \<open>
  The invariant of the parsing loop used below: no record, pushed or current, has a commit
  message.
\<close>

definition noMessage :: "WorktreeInfo list \<times> WorktreeInfo option \<Rightarrow> bool" where
  "noMessage st = (list_all (\<lambda>w. commitMessage w = None) (fst st)
                   \<and> (case snd st of None \<Rightarrow> True | Some w \<Rightarrow> commitMessage w = None))"

text \<open>
  The collapsed, non-current state of a node: a group node is collapsed, a repository or
  worktree node is not expanded and carries the icon of a node that is not open.
\<close>

fun nonCurrent :: "RepositoryTreeNode \<Rightarrow> bool" where
  "nonCurrent EmptyState = True"
| "nonCurrent (Domain d) = (dn_state d = Collapsed)"
| "nonCurrent (OwnerOrRepo (OwnerNode own fp repos dm st chs)) = (st = Collapsed)"
| "nonCurrent (OwnerOrRepo (RepositoryNode repo st icon)) = (st \<noteq> Expanded \<and> icon = ''repo'')"
| "nonCurrent (LocalGroup g) = (lg_state g = Collapsed)"
| "nonCurrent (Worktree w) = (wn_state w \<noteq> Expanded \<and> wn_icon w = ''worktree'')"

text \<open>
  The same for a node of the owner tree together with everything below it in its
  \<open>children\<close> map, and the invariant of the nodes of a tree built without a workspace.
\<close>

fun allCollapsed :: "OwnerOrRepositoryNode \<Rightarrow> bool" where
  "allCollapsed (OwnerNode own fp repos dm st chs) =
     (st = Collapsed \<and> list_all allCollapsed (map snd chs))"
| "allCollapsed (RepositoryNode repo st icon) = (st \<noteq> Expanded \<and> icon = ''repo'')"

fun quiet :: "RepositoryTreeNode \<Rightarrow> bool" where
  "quiet (OwnerOrRepo x) = allCollapsed x"
| "quiet (LocalGroup g) = (lg_state g = Expanded)"
| "quiet n = nonCurrent n"

text \<open>
  A second invariant of the parsing loop: the commit hash of every record, pushed or
  current, is unset or is the first eight characters of the value of a \<open>HEAD\<close> line among
  \<open>lines\<close>.
\<close>

definition hashFromHead :: "string set \<Rightarrow> WorktreeInfo \<Rightarrow> bool" where
  "hashFromHead lines w =
     (commitHash w = None \<or> (\<exists>ref. ''HEAD '' @ ref \<in> lines \<and> commitHash w = Some (take 8 ref)))"

definition hashesFromHead :: "string set \<Rightarrow> WorktreeInfo list \<times> WorktreeInfo option \<Rightarrow> bool" where
  "hashesFromHead lines st =
     (list_all (hashFromHead lines) (fst st)
      \<and> (case snd st of None \<Rightarrow> True | Some w \<Rightarrow> hashFromHead lines w))"



text \<open>
  Invariants of the owner tree and of the domain map. \<open>represents xs p n\<close>: the node \<open>n\<close>,
  which sits at the segment path \<open>p\<close> of the tree built from the records \<open>xs\<close>, has in its
  bucket the records whose owner segments are \<open>p\<close>, in their order, is named by the last
  segment, has the joined path as its full path, and has one child, an owner node with the
  same property, for every segment that continues \<open>p\<close> towards a record. \<open>inserted\<close> are
  the records that \<open>getOwnerNodes\<close> does not skip. \<open>hides r1 n\<close>: no node that
  \<open>getChildren\<close> returns at or below \<open>n\<close> is a repository node of \<open>r1\<close>; \<open>notShown\<close> is the
  same for a node of any class.
\<close>

fun represents :: "RepositoryInfo list \<Rightarrow> string list \<Rightarrow> OwnerOrRepositoryNode \<Rightarrow> bool" where
  "represents xs p (OwnerNode own fp rs dm st chs) =
     (rs = filter (\<lambda>r. ownerSegments r = p) xs
      \<and> own = (if p = [] then [] else last p)
      \<and> fp = joinWith ''/'' p
      \<and> distinct (map fst chs)
      \<and> set (map fst chs) = {k. \<exists>r\<in>set xs. prefix (p @ [k]) (ownerSegments r)}
      \<and> (\<forall>kc\<in>set chs. represents xs (p @ [fst kc]) (snd kc)))"
| "represents xs p (RepositoryNode r st icon) = False"

definition inserted :: "RepositoryInfo list \<Rightarrow> RepositoryInfo list" where
  "inserted xs = filter (\<lambda>r. hasRemote r \<and> ownerSegments r \<noteq> []) xs"

definition repoDomain :: "RepositoryInfo \<Rightarrow> string" where
  "repoDomain r = extractDomain (firstFetchUrl r)"

definition domainMapOf :: "RepositoryInfo list \<Rightarrow> (string \<times> RepositoryInfo list) list \<Rightarrow> bool" where
  "domainMapOf xs m =
     (distinct (map fst m)
      \<and> set (map fst m) = repoDomain ` set xs
      \<and> (\<forall>kv\<in>set m. snd kv = filter (\<lambda>r. repoDomain r = fst kv) xs))"

fun hides :: "RepositoryInfo \<Rightarrow> OwnerOrRepositoryNode \<Rightarrow> bool" where
  "hides r1 (RepositoryNode r st icon) = (r \<noteq> r1)"
| "hides r1 (OwnerNode own fp rs dm st chs) =
     (if chs = [] then r1 \<notin> set rs else list_all (hides r1) (map snd chs))"

fun notShown ::
  "RepositoryInfo \<Rightarrow> (string \<Rightarrow> string \<Rightarrow> int) \<Rightarrow> string option \<Rightarrow> RepositoryTreeNode \<Rightarrow> bool"
where
  "notShown r1 lc cwp (OwnerOrRepo x) = hides r1 x"
| "notShown r1 lc cwp (Domain d) =
     list_all (hides r1) (getOwnerNodes lc cwp (dn_domain d) (dn_repositories d))"
| "notShown r1 lc cwp (LocalGroup g) = (r1 \<notin> set (lg_repositories g))"
| "notShown r1 lc cwp EmptyState = True"
| "notShown r1 lc cwp (Worktree w) = True"

section \<open>Concrete inputs\<close>

definition posixJoin :: "string \<Rightarrow> string \<Rightarrow> string" where
  "posixJoin d n = d @ ''/'' @ n"

definition posixBasename :: "string \<Rightarrow> string" where
  "posixBasename p = (case rev (splitOn CHR ''/'' p) of [] \<Rightarrow> [] | b # _ \<Rightarrow> b)"

definition porcelain :: string where
  "porcelain = ''worktree /r\<newline>HEAD abc123\<newline>branch refs/heads/main\<newline>\<newline>worktree /r-wt\<newline>HEAD def456\<newline>detached\<newline>\<newline>''"

text \<open>
  A host on which every directory is accepted and every git query answers, except the
  per-worktree commit lookup, which throws.
\<close>

definition demoHost :: host where
  "demoHost =
     \<lparr>shouldIgnorePath = (\<lambda>p. False), pathJoin = posixJoin, pathNormalize = (\<lambda>p. p),
      pathBasename = posixBasename, simpleGit = (\<lambda>p. True),
      gitStatus = (\<lambda>p. Some (Some ''main'')), gitRemotes = (\<lambda>p. Some []),
      gitWorktreeList = (\<lambda>p. Some porcelain), gitLog = (\<lambda>p. None),
      now = ''2024-01-01T00:00:00.000Z''\<rparr>"

definition gitFileTree :: fsnode where
  "gitFileTree = Dir [Dirent ''sub'' (Dir [Dirent ''.git'' RegFile, Dirent ''src'' (Dir [])])]"

definition gitDirTree :: fsnode where
  "gitDirTree = Dir [Dirent ''sub'' (Dir [Dirent ''.git'' (Dir []), Dirent ''src'' (Dir [])])]"



text \<open>
  A comparator to run the sorts with: strings compared by character code. Records for the
  examples: a repository with a secondary worktree whose first remote is on gitlab.com, a
  repository without a remote, and any record given that first remote.
\<close>

fun codeCompare :: "string \<Rightarrow> string \<Rightarrow> int" where
  "codeCompare [] [] = 0"
| "codeCompare [] (y # ys) = - 1"
| "codeCompare (x # xs) [] = 1"
| "codeCompare (x # xs) (y # ys) =
     (if (of_char x :: nat) < of_char y then - 1
      else if (of_char y :: nat) < of_char x then 1
      else codeCompare xs ys)"

definition gitlabUrl :: string where
  "gitlabUrl = ''https://gitlab.com/org/team/proj.git''"


definition wtMain :: WorktreeInfo where
  "wtMain = \<lparr>wt_name = ''r'', wt_path = ''/r'', branch = Some ''main'', isMain = True,
             isDetached = False, commitHash = None, commitMessage = None\<rparr>"

definition wtSecond :: WorktreeInfo where
  "wtSecond = \<lparr>wt_name = ''r-wt'', wt_path = ''/r-wt'', branch = Some ''feature'', isMain = False,
               isDetached = False, commitHash = None, commitMessage = None\<rparr>"

definition repoR :: RepositoryInfo where
  "repoR = \<lparr>repo_path = ''/r'', repo_name = ''r'',
            remotes = [\<lparr>remote_name = ''origin'', fetchUrl = Some gitlabUrl, pushUrl = Some gitlabUrl\<rparr>],
            currentBranch = Some ''main'', isSubmodule = False, worktrees = [wtMain, wtSecond],
            lastScanned = ''2024-01-01T00:00:00.000Z''\<rparr>"

definition localRepo :: RepositoryInfo where
  "localRepo = \<lparr>repo_path = ''/l'', repo_name = ''l'', remotes = [],
            currentBranch = Some ''main'', isSubmodule = False, worktrees = [],
            lastScanned = ''2024-01-01T00:00:00.000Z''\<rparr>"


text \<open>
  A listing with a full-length commit id and a host that returns it; a tree with a
  repository root at depth 3 above one at depth 9; a directory whose \<open>.git\<close> entry is a
  regular file.
\<close>

definition porcelainLong :: string where
  "porcelainLong = ''worktree /r\<newline>HEAD 9fceb02d0ae598e95dc970b74767f19372d61af8\<newline>branch refs/heads/main\<newline>\<newline>''"

definition longHost :: host where
  "longHost = demoHost\<lparr>gitWorktreeList := (\<lambda>p. Some porcelainLong)\<rparr>"



section \<open>Facts about the worktree parser\<close>

lemma demoHost_simps:
  "shouldIgnorePath demoHost = (\<lambda>p. False)" "pathJoin demoHost = posixJoin"
  "pathNormalize demoHost = (\<lambda>p. p)" "pathBasename demoHost = posixBasename"
  "simpleGit demoHost = (\<lambda>p. True)" "gitStatus demoHost = (\<lambda>p. Some (Some ''main''))"
  "gitRemotes demoHost = (\<lambda>p. Some [])" "gitWorktreeList demoHost = (\<lambda>p. Some porcelain)"
  "gitLog demoHost = (\<lambda>p. None)" "now demoHost = ''2024-01-01T00:00:00.000Z''"
  by (simp_all add: demoHost_def)

lemma parseLine_noMessage: "noMessage st \<Longrightarrow> noMessage (parseLine line st)"
  by (cases st) (auto simp: noMessage_def parseLine_def newWorktree_def Let_def split: option.splits)

lemma fold_parseLine_noMessage: "noMessage st \<Longrightarrow> noMessage (fold parseLine ls st)"
  by (induction ls arbitrary: st) (simp_all add: parseLine_noMessage)

lemma parseWorktrees_noMessage: "w \<in> set (parseWorktrees listing) \<Longrightarrow> commitMessage w = None"
proof -
  assume w: "w \<in> set (parseWorktrees listing)"
  obtain wts cur where f: "fold parseLine (splitOn newline listing) ([], None) = (wts, cur)"
    by (cases "fold parseLine (splitOn newline listing) ([], None)")
  have "noMessage (fold parseLine (splitOn newline listing) ([], None))"
    by (rule fold_parseLine_noMessage) (simp add: noMessage_def)
  then have n: "noMessage (wts, cur)" by (simp add: f)
  from w f have "w \<in> set wts \<or> cur = Some w"
    by (cases cur) (auto simp: parseWorktrees_def split: if_splits)
  with n show ?thesis by (auto simp: noMessage_def list_all_iff)
qed

lemma finishWorktree_path: "wt_path (finishWorktree h p w) = wt_path w"
  by (simp add: finishWorktree_def Let_def split: option.splits prod.splits)

lemma finishWorktree_keeps:
  "branch (finishWorktree h p w) = branch w \<and> isDetached (finishWorktree h p w) = isDetached w"
  by (simp add: finishWorktree_def Let_def split: option.splits prod.splits)

lemma finishWorktree_failed:
  "gitLog h (wt_path w) = None \<Longrightarrow>
     commitHash (finishWorktree h p w) = commitHash w \<and> commitMessage (finishWorktree h p w) = commitMessage w"
  by (simp add: finishWorktree_def Let_def)

lemma porcelain_parse:
  "parseWorktrees porcelain =
     [\<lparr>wt_name = [], wt_path = ''/r'', branch = Some ''main'', isMain = False, isDetached = False,
       commitHash = Some ''abc123'', commitMessage = None\<rparr>,
      \<lparr>wt_name = [], wt_path = ''/r-wt'', branch = Some ''def456'', isMain = False,
       isDetached = True, commitHash = Some ''def456'', commitMessage = None\<rparr>]"
  by (simp add: porcelain_def parseWorktrees_def parseLine_def newline_def startsWith_def
      hasPath_def newWorktree_def Let_def)

text \<open>
  Claim C2. Parsing the porcelain text of two blocks, a branch block for \<open>/r\<close> and a
  detached block for \<open>/r-wt\<close>, gives two records, the first with branch \<open>main\<close> and not
  detached, the second detached and with no branch. The code gives two records, but the
  \<open>HEAD\<close> line of the second block has set its branch to \<open>def456\<close>, and nothing clears it:
  the detached record has a branch.
\<close>

theorem parse_porcelain_detached_keeps_branch:
  "parseWorktrees porcelain =
     [\<lparr>wt_name = [], wt_path = ''/r'', branch = Some ''main'', isMain = False, isDetached = False,
       commitHash = Some ''abc123'', commitMessage = None\<rparr>,
      \<lparr>wt_name = [], wt_path = ''/r-wt'', branch = Some ''def456'', isMain = False,
       isDetached = True, commitHash = Some ''def456'', commitMessage = None\<rparr>]
   \<and> map (\<lambda>w. (wt_path w, branch w, isDetached w))
        (map (finishWorktree h repoPath) (parseWorktrees porcelain))
      = [(''/r'', Some ''main'', False), (''/r-wt'', Some ''def456'', True)]"
  by (simp add: porcelain_parse finishWorktree_path finishWorktree_keeps)

text \<open>
  Claim C3, as stated, fails: when the commit lookup of a worktree throws, the record keeps
  the hash that its \<open>HEAD\<close> line set.
\<close>

theorem failed_lookup_counterexample:
  "gitLog demoHost ''/r'' = None
   \<and> map (\<lambda>w. (wt_path w, commitHash w, commitMessage w))
        (case extractRepositoryInfo demoHost ''/r'' False of None \<Rightarrow> [] | Some info \<Rightarrow> worktrees info)
      = [(''/r'', Some ''abc123'', None), (''/r-wt'', Some ''def456'', None)]"
  by (simp add: extractRepositoryInfo_def demoHost_simps porcelain_parse finishWorktree_def)

lemma startsWith_split: "startsWith p s \<Longrightarrow> s = p @ drop (length p) s"
  unfolding startsWith_def by (metis append_take_drop_id)

lemma parseLine_hashes:
  assumes "hashesFromHead lines st" and "line \<in> lines"
  shows "hashesFromHead lines (parseLine line st)"
proof -
  obtain wts cur where st: "st = (wts, cur)" by (cases st)
  have head: "hashFromHead lines (w\<lparr>branch := b, commitHash := Some (take 8 (drop (length ''HEAD '') line))\<rparr>)"
    if "startsWith ''HEAD '' line" for w b
  proof -
    have "''HEAD '' @ drop (length ''HEAD '') line \<in> lines"
      using startsWith_split[OF that] assms(2) by simp
    then show ?thesis unfolding hashFromHead_def by auto
  qed
  have keep: "hashFromHead lines (w\<lparr>branch := b\<rparr>)" "hashFromHead lines (w\<lparr>isDetached := d\<rparr>)"
    if "hashFromHead lines w" for w b d
    using that by (simp_all add: hashFromHead_def)
  have new: "hashFromHead lines (newWorktree p)" for p
    by (simp add: hashFromHead_def newWorktree_def)
  show ?thesis
    using assms(1) head keep new unfolding st
    by (cases cur) (auto simp: hashesFromHead_def parseLine_def Let_def simp del: length_Cons list.size)
qed

lemma fold_parseLine_hashes:
  "hashesFromHead lines st \<Longrightarrow> set ls \<subseteq> lines \<Longrightarrow> hashesFromHead lines (fold parseLine ls st)"
  by (induction ls arbitrary: st) (simp_all add: parseLine_hashes)

lemma parseWorktrees_hashes:
  assumes "w \<in> set (parseWorktrees listing)"
  shows "hashFromHead (set (splitOn newline listing)) w"
proof -
  let ?L = "set (splitOn newline listing)"
  obtain wts cur where f: "fold parseLine (splitOn newline listing) ([], None) = (wts, cur)"
    by (cases "fold parseLine (splitOn newline listing) ([], None)")
  have "hashesFromHead ?L (fold parseLine (splitOn newline listing) ([], None))"
    by (rule fold_parseLine_hashes) (simp_all add: hashesFromHead_def)
  then have n: "hashesFromHead ?L (wts, cur)" by (simp add: f)
  from assms f have "w \<in> set wts \<or> cur = Some w"
    by (cases cur) (auto simp: parseWorktrees_def split: if_splits)
  with n show ?thesis by (auto simp: hashesFromHead_def list_all_iff)
qed


lemma parseLine_worktree:
  "parseLine (''worktree '' @ P) (wts, None) = (wts, Some (newWorktree P))"
  by (simp add: parseLine_def startsWith_def)

lemma parseLine_HEAD:
  "wt_path w \<noteq> [] \<Longrightarrow>
     parseLine (''HEAD '' @ R) (wts, Some w)
       = (wts, Some (w\<lparr>branch := Some (if startsWith ''refs/heads/'' R
                                          then drop (length ''refs/heads/'') R else R),
                        commitHash := Some (take 8 R)\<rparr>))"
  by (simp add: parseLine_def startsWith_def hasPath_def Let_def)

lemma parseLine_other:
  assumes "wt_path w \<noteq> []" "l \<noteq> []" "\<not> startsWith ''worktree '' l" "\<not> startsWith ''HEAD '' l"
  shows "\<exists>w'. parseLine l (wts, Some w) = (wts, Some w')
               \<and> wt_path w' = wt_path w \<and> commitHash w' = commitHash w"
  using assms by (simp add: parseLine_def hasPath_def)

lemma parseLine_blank:
  "wt_path w \<noteq> [] \<Longrightarrow> parseLine [] (wts, Some w) = (wts @ [w], None)"
  by (simp add: parseLine_def startsWith_def hasPath_def)

lemma fold_parseLine_others:
  assumes "wt_path w \<noteq> []"
    and "\<forall>l\<in>set others. l \<noteq> [] \<and> \<not> startsWith ''worktree '' l \<and> \<not> startsWith ''HEAD '' l"
  shows "\<exists>w'. fold parseLine others (wts, Some w) = (wts, Some w')
               \<and> wt_path w' = wt_path w \<and> commitHash w' = commitHash w"
  using assms
proof (induction others arbitrary: w)
  case Nil
  then show ?case by simp
next
  case (Cons l others)
  from parseLine_other[of w l wts] Cons.prems
  obtain w1 where 1: "parseLine l (wts, Some w) = (wts, Some w1)"
    "wt_path w1 = wt_path w" "commitHash w1 = commitHash w"
    by auto
  from Cons.IH[of w1] Cons.prems 1
  obtain w2 where 2: "fold parseLine others (wts, Some w1) = (wts, Some w2)"
    "wt_path w2 = wt_path w1" "commitHash w2 = commitHash w1"
    by auto
  show ?case using 1 2 by simp
qed

lemma block_hash:
  assumes "P \<noteq> []"
    and "\<forall>l\<in>set others. l \<noteq> [] \<and> \<not> startsWith ''worktree '' l \<and> \<not> startsWith ''HEAD '' l"
  shows "\<exists>w. fold parseLine ([''worktree '' @ P, ''HEAD '' @ R] @ others @ [[]]) (wts, None)
                = (wts @ [w], None)
             \<and> wt_path w = P \<and> commitHash w = Some (take 8 R)"
proof -
  let ?w0 = "newWorktree P"
  let ?w1 = "?w0\<lparr>branch := Some (if startsWith ''refs/heads/'' R
                                          then drop (length ''refs/heads/'') R else R),
                        commitHash := Some (take 8 R)\<rparr>"
  have p0: "wt_path ?w0 \<noteq> []" and p1: "wt_path ?w1 \<noteq> []"
    using assms(1) by (simp_all add: newWorktree_def)
  have a: "fold parseLine [''worktree '' @ P, ''HEAD '' @ R] (wts, None) = (wts, Some ?w1)"
  proof -
    have "fold parseLine [x, y] s = parseLine y (parseLine x s)" for x y s
      by simp
    then show ?thesis
      by (simp only: parseLine_worktree parseLine_HEAD[OF p0])
  qed
  from fold_parseLine_others[OF p1 assms(2), of wts]
  obtain w2 where b: "fold parseLine others (wts, Some ?w1) = (wts, Some w2)"
    "wt_path w2 = wt_path ?w1" "commitHash w2 = commitHash ?w1"
    by auto
  have p2: "wt_path w2 \<noteq> []" using b(2) p1 by simp
  have "fold parseLine ([''worktree '' @ P, ''HEAD '' @ R] @ others @ [[]]) (wts, None)
        = (wts @ [w2], None)"
  proof -
    have "fold parseLine (xs @ ys @ [z]) s = parseLine z (fold parseLine ys (fold parseLine xs s))"
      for xs ys z s
      by simp
    then show ?thesis
      by (simp only: a b(1) parseLine_blank[OF p2])
  qed
  moreover have "wt_path w2 = P" "commitHash w2 = Some (take 8 R)"
    using b(2,3) by (simp_all add: newWorktree_def)
  ultimately show ?thesis by blast
qed


text \<open>
  Claim C3, amended. For every worktree record whose commit lookup fails, the record is
  still in the output, at its place, its commit message is unset, and its commit hash is
  left as the parse of its block set it. That value is unset or the first eight characters
  of the value of a \<open>HEAD\<close> line of the listing; a block of a \<open>worktree\<close> line, a \<open>HEAD\<close>
  line and further lines up to the blank line gives the record the first eight characters
  of that \<open>HEAD\<close> value.
\<close>

theorem failed_lookup_keeps_record:
  "(simpleGit h repoPath \<and> gitWorktreeList h repoPath = Some listing \<longrightarrow>
      (\<exists>info. extractRepositoryInfo h repoPath isGitFile = Some info
           \<and> map wt_path (worktrees info) = map wt_path (parseWorktrees listing)
           \<and> (\<forall>i<length (parseWorktrees listing).
                 gitLog h (wt_path (parseWorktrees listing ! i)) = None \<longrightarrow>
                   commitMessage (worktrees info ! i) = None
                   \<and> commitHash (worktrees info ! i) = commitHash (parseWorktrees listing ! i))))
   \<and> (\<forall>w\<in>set (parseWorktrees listing).
         commitHash w = None
         \<or> (\<exists>ref. ''HEAD '' @ ref \<in> set (splitOn newline listing) \<and> commitHash w = Some (take 8 ref)))
   \<and> (P \<noteq> [] \<and> (\<forall>l\<in>set others. l \<noteq> [] \<and> \<not> startsWith ''worktree '' l \<and> \<not> startsWith ''HEAD '' l)
        \<longrightarrow> (\<exists>w. fold parseLine ([''worktree '' @ P, ''HEAD '' @ R] @ others @ [[]]) (wts, None)
                    = (wts @ [w], None)
                 \<and> wt_path w = P \<and> commitHash w = Some (take 8 R)))"
proof (intro conjI impI)
  assume a: "simpleGit h repoPath \<and> gitWorktreeList h repoPath = Some listing"
  let ?info = "\<lparr>repo_path = repoPath,
         repo_name = pathBasename h repoPath,
         remotes = (case gitRemotes h repoPath of Some rs \<Rightarrow> rs | None \<Rightarrow> []),
         currentBranch =
           (case gitStatus h repoPath of
              Some (Some b) \<Rightarrow> if b = [] then None else Some b
            | _ \<Rightarrow> None),
         isSubmodule = isGitFile,
         worktrees = map (finishWorktree h repoPath) (parseWorktrees listing),
         lastScanned = now h\<rparr>"
  have e: "extractRepositoryInfo h repoPath isGitFile = Some ?info"
    using a by (simp add: extractRepositoryInfo_def)
  have p: "map wt_path (worktrees ?info) = map wt_path (parseWorktrees listing)"
    by (simp add: finishWorktree_path comp_def)
  have f: "\<forall>i<length (parseWorktrees listing).
                 gitLog h (wt_path (parseWorktrees listing ! i)) = None \<longrightarrow>
                   commitMessage (worktrees ?info ! i) = None
                   \<and> commitHash (worktrees ?info ! i) = commitHash (parseWorktrees listing ! i)"
    using parseWorktrees_noMessage[of _ listing] by (auto simp: finishWorktree_failed)
  from e p f show "\<exists>info. extractRepositoryInfo h repoPath isGitFile = Some info
           \<and> map wt_path (worktrees info) = map wt_path (parseWorktrees listing)
           \<and> (\<forall>i<length (parseWorktrees listing).
                 gitLog h (wt_path (parseWorktrees listing ! i)) = None \<longrightarrow>
                   commitMessage (worktrees info ! i) = None
                   \<and> commitHash (worktrees info ! i) = commitHash (parseWorktrees listing ! i))"
    by blast
next
  show "\<forall>w\<in>set (parseWorktrees listing).
         commitHash w = None
         \<or> (\<exists>ref. ''HEAD '' @ ref \<in> set (splitOn newline listing) \<and> commitHash w = Some (take 8 ref))"
    using parseWorktrees_hashes[of _ listing] unfolding hashFromHead_def by blast
next
  assume "P \<noteq> [] \<and> (\<forall>l\<in>set others. l \<noteq> [] \<and> \<not> startsWith ''worktree '' l \<and> \<not> startsWith ''HEAD '' l)"
  then show "\<exists>w. fold parseLine ([''worktree '' @ P, ''HEAD '' @ R] @ others @ [[]]) (wts, None)
                    = (wts @ [w], None)
                 \<and> wt_path w = P \<and> commitHash w = Some (take 8 R)"
    using block_hash[of P others R wts] by blast
qed

lemma porcelainLong_lines:
  "splitOn newline porcelainLong
     = [''worktree /r'', ''HEAD 9fceb02d0ae598e95dc970b74767f19372d61af8'',
        ''branch refs/heads/main'', [], []]"
  by (simp add: porcelainLong_def newline_def)

lemma porcelainLong_parse:
  "parseWorktrees porcelainLong =
     [\<lparr>wt_name = [], wt_path = ''/r'', branch = Some ''main'', isMain = False, isDetached = False,
       commitHash = Some ''9fceb02d'', commitMessage = None\<rparr>]"
  unfolding parseWorktrees_def porcelainLong_lines
  by (simp add: parseLine_def startsWith_def hasPath_def newWorktree_def Let_def)

theorem failed_lookup_keeps_record_witness:
  "gitLog longHost ''/r'' = None
   \<and> (\<exists>info. extractRepositoryInfo longHost ''/r'' False = Some info
           \<and> map wt_path (worktrees info) = [''/r'']
           \<and> map commitHash (worktrees info) = [Some ''9fceb02d'']
           \<and> map commitMessage (worktrees info) = [None])
   \<and> ''HEAD 9fceb02d0ae598e95dc970b74767f19372d61af8'' \<in> set (splitOn newline porcelainLong)
   \<and> (\<exists>w. fold parseLine
             [''worktree /r'', ''HEAD 9fceb02d0ae598e95dc970b74767f19372d61af8'',
              ''branch refs/heads/main'', []] ([], None) = ([w], None)
          \<and> wt_path w = ''/r'' \<and> commitHash w = Some ''9fceb02d'')"
proof -
  let ?R = "''9fceb02d0ae598e95dc970b74767f19372d61af8''"
  have hs: "simpleGit longHost ''/r''" "gitWorktreeList longHost ''/r'' = Some porcelainLong"
    "gitLog longHost ''/r'' = None"
    by (simp_all add: longHost_def demoHost_simps)
  have oth: "''/r'' \<noteq> [] \<and> (\<forall>l\<in>set [''branch refs/heads/main''].
               l \<noteq> [] \<and> \<not> startsWith ''worktree '' l \<and> \<not> startsWith ''HEAD '' l)"
    by (simp add: startsWith_def)
  note inst = failed_lookup_keeps_record[of longHost "''/r''" porcelainLong False "''/r''"
      "[''branch refs/heads/main'']" ?R "[]"]
  from inst hs obtain info where i: "extractRepositoryInfo longHost ''/r'' False = Some info"
    and p: "map wt_path (worktrees info) = map wt_path (parseWorktrees porcelainLong)"
    and f: "\<forall>i<length (parseWorktrees porcelainLong).
                 gitLog longHost (wt_path (parseWorktrees porcelainLong ! i)) = None \<longrightarrow>
                   commitMessage (worktrees info ! i) = None
                   \<and> commitHash (worktrees info ! i) = commitHash (parseWorktrees porcelainLong ! i)"
    by blast
  from p have "length (worktrees info) = 1"
    using length_map[of wt_path "worktrees info"] by (simp add: porcelainLong_parse)
  then obtain a where a: "worktrees info = [a]"
    by (cases "worktrees info") auto
  from f have "commitMessage a = None \<and> commitHash a = Some ''9fceb02d''"
    using a hs(3) by (simp add: porcelainLong_parse)
  with i p a have part1: "\<exists>info. extractRepositoryInfo longHost ''/r'' False = Some info
           \<and> map wt_path (worktrees info) = [''/r'']
           \<and> map commitHash (worktrees info) = [Some ''9fceb02d'']
           \<and> map commitMessage (worktrees info) = [None]"
    by (simp add: porcelainLong_parse)
  from inst oth
  have "\<exists>w. fold parseLine ([''worktree '' @ ''/r'', ''HEAD '' @ ?R] @ [''branch refs/heads/main''] @ [[]])
               ([], None) = ([] @ [w], None)
            \<and> wt_path w = ''/r'' \<and> commitHash w = Some (take 8 ?R)"
    by blast
  then have part3: "\<exists>w. fold parseLine
             [''worktree /r'', ''HEAD 9fceb02d0ae598e95dc970b74767f19372d61af8'',
              ''branch refs/heads/main'', []] ([], None) = ([w], None)
          \<and> wt_path w = ''/r'' \<and> commitHash w = Some ''9fceb02d''"
    by simp
  have part2: "''HEAD 9fceb02d0ae598e95dc970b74767f19372d61af8'' \<in> set (splitOn newline porcelainLong)"
    by (simp add: porcelainLong_lines)
  from hs(3) part1 part2 part3 show ?thesis by blast
qed

section \<open>Facts about the directory scan\<close>

declare scanDir.simps [simp del]

lemma scanDir_Dir:
  "scanDir h depth dirPath (Dir entries) st =
     (if depth > MAX_DEPTH then st
      else if shouldIgnorePath h dirPath then st
      else
        (case find (\<lambda>e. d_name e = ''.git'') entries of
           Some gitEntry \<Rightarrow>
             if isFile (d_node gitEntry) then st
             else
               (let normalizedPath = pathNormalize h dirPath in
                if normalizedPath \<in> snd st then st
                else
                  (case extractRepositoryInfo h dirPath (isFile (d_node gitEntry)) of
                     Some repoInfo \<Rightarrow> (fst st @ [repoInfo], insert normalizedPath (snd st))
                   | None \<Rightarrow> (fst st, insert normalizedPath (snd st))))
         | None \<Rightarrow> scanEntries h depth dirPath entries st))"
  by (simp add: scanDir.simps)

lemma scanDir_notDir:
  "\<forall>entries. node \<noteq> Dir entries \<Longrightarrow> scanDir h depth dirPath node st = st"
  by (cases node) (simp_all add: scanDir.simps)

lemma extract_path: "extractRepositoryInfo h p b = Some info \<Longrightarrow> repo_path info = p \<and> isSubmodule info = b"
  by (auto simp: extractRepositoryInfo_def split: if_splits)

lemma scan_sub:
  "(\<forall>r\<in>set (fst st). \<not> isSubmodule r) \<Longrightarrow> (\<forall>r\<in>set (fst (scanDir h d p node st)). \<not> isSubmodule r)"
  "(\<forall>r\<in>set (fst st). \<not> isSubmodule r) \<Longrightarrow> (\<forall>r\<in>set (fst (scanEntries h d p es st)). \<not> isSubmodule r)"
proof (induction h d p node st and h d p es st rule: scanDir_scanEntries.induct)
  case (1 h depth dirPath node st)
  show ?case
  proof (cases node)
    case (Dir entries)
    show ?thesis
    proof (cases "find (\<lambda>e. d_name e = ''.git'') entries")
      case None
      show ?thesis
      proof (cases "depth > MAX_DEPTH \<or> shouldIgnorePath h dirPath")
        case True
        then show ?thesis using "1.prems" Dir by (auto simp: scanDir_Dir)
      next
        case False
        then have "scanDir h depth dirPath node st = scanEntries h depth dirPath entries st"
          using Dir None by (auto simp: scanDir_Dir)
        then show ?thesis using "1.IH"[OF _ _ Dir None "1.prems"] False by auto
      qed
    next
      case (Some gitEntry)
      then show ?thesis using "1.prems" Dir
        by (auto simp: scanDir_Dir Let_def split: option.splits dest!: extract_path)
    qed
  qed (use "1.prems" in \<open>simp_all add: scanDir_notDir\<close>)
next
  case (2 h depth dirPath st)
  then show ?case by simp
next
  case (3 h depth dirPath name node entries st)
  let ?st = "if isDirectory node \<and> \<not> isSymbolicLink node then
               (if name \<in> set SKIP_DIRECTORIES then st
                else scanDir h (depth + 1) (pathJoin h dirPath name) node st)
             else st"
  have a: "\<forall>r\<in>set (fst ?st). \<not> isSubmodule r"
    using "3.IH"(1) "3.prems" by auto
  have c: "scanEntries h depth dirPath (Dirent name node # entries) st
           = scanEntries h depth dirPath entries ?st"
    by simp
  show ?case unfolding c using "3.IH"(2)[OF a] .
qed
















text \<open>
  Claim C1, as stated, fails: a directory whose \<open>.git\<close> entry is a regular file gives no
  record, while the same directory with a \<open>.git\<close> directory gives one.
\<close>

theorem git_file_counterexample:
  "find (\<lambda>e. d_name e = ''.git'') [Dirent ''.git'' RegFile, Dirent ''src'' (Dir [])] = Some (Dirent ''.git'' RegFile)
   \<and> scanPath demoHost ''/base'' gitFileTree = []
   \<and> map (\<lambda>r. (repo_path r, isSubmodule r)) (scanPath demoHost ''/base'' gitDirTree) = [(''/base/sub'', False)]"
  by (simp add: scanPath_def gitFileTree_def gitDirTree_def scanDir_Dir isFile_def isDirectory_def
      isSymbolicLink_def MAX_DEPTH_def SKIP_DIRECTORIES_def demoHost_simps posixJoin_def Let_def
      extractRepositoryInfo_def)

text \<open>
  Claim C1, amended. A scanned directory whose \<open>.git\<close> entry is a regular file ends the
  descent and leaves the scan as it was: no record is made for it. Only a \<open>.git\<close> entry that
  is not a regular file leads to metadata extraction, so every record of a scan has
  \<open>isSubmodule = false\<close>.
\<close>

theorem git_file_directory_skipped:
  "(find (\<lambda>e. d_name e = ''.git'') entries = Some gitEntry \<and> isFile (d_node gitEntry)
      \<longrightarrow> scanDir h depth dirPath (Dir entries) st = st)
   \<and> (\<forall>r\<in>set (scanPath h basePath root). \<not> isSubmodule r)"
proof (intro conjI impI)
  assume "find (\<lambda>e. d_name e = ''.git'') entries = Some gitEntry \<and> isFile (d_node gitEntry)"
  then show "scanDir h depth dirPath (Dir entries) st = st"
    by (simp add: scanDir_Dir)
next
  show "\<forall>r\<in>set (scanPath h basePath root). \<not> isSubmodule r"
    unfolding scanPath_def by (rule scan_sub(1)) simp
qed

theorem git_file_directory_skipped_witness:
  "scanDir demoHost 1 ''/base/sub'' (Dir [Dirent ''.git'' RegFile, Dirent ''src'' (Dir [])]) ([], {}) = ([], {})
   \<and> map isSubmodule (scanPath demoHost ''/base'' gitDirTree) = [False]"
proof -
  have a: "find (\<lambda>e. d_name e = ''.git'') [Dirent ''.git'' RegFile, Dirent ''src'' (Dir [])] = Some (Dirent ''.git'' RegFile)
           \<and> isFile (d_node (Dirent ''.git'' RegFile))"
    by (simp add: isFile_def)
  have b: "length (scanPath demoHost ''/base'' gitDirTree) = 1"
    by (simp add: scanPath_def gitDirTree_def scanDir_Dir isFile_def isDirectory_def
      isSymbolicLink_def MAX_DEPTH_def SKIP_DIRECTORIES_def demoHost_simps posixJoin_def Let_def
      extractRepositoryInfo_def)
  from b obtain r where r: "scanPath demoHost ''/base'' gitDirTree = [r]"
    by (cases "scanPath demoHost ''/base'' gitDirTree") auto
  show ?thesis
    using git_file_directory_skipped[of "[Dirent ''.git'' RegFile, Dirent ''src'' (Dir [])]"
        "Dirent ''.git'' RegFile" demoHost 1 "''/base/sub''" "([], {})" "''/base''" gitDirTree] a r
    by simp
qed

section \<open>Facts about sorting and the comparator\<close>

lemma set_insertBy: "set (insertBy cmp x ys) = insert x (set ys)"
  by (induction ys) auto

lemma set_sortBy: "set (sortBy cmp xs) = set xs"
  by (induction xs) (simp_all add: sortBy_def set_insertBy)

lemma mset_insertBy: "mset (insertBy cmp x ys) = add_mset x (mset ys)"
  by (induction ys) auto

lemma mset_sortBy: "mset (sortBy cmp xs) = mset xs"
  by (induction xs) (simp_all add: sortBy_def mset_insertBy)

lemma sortBy_Nil: "sortBy cmp [] = []"
  by (simp add: sortBy_def)


lemma sortBy_Cons: "sortBy cmp (x # xs) = insertBy cmp x (sortBy cmp xs)"
  by (simp add: sortBy_def)

lemma sorted_insertBy:
  assumes tot: "\<And>a b. cmp a b \<le> 0 \<or> cmp b a \<le> 0"
    and tr: "\<And>a b c. cmp a b \<le> 0 \<Longrightarrow> cmp b c \<le> 0 \<Longrightarrow> cmp a c \<le> 0"
    and s: "sorted_wrt (\<lambda>a b. cmp a b \<le> 0) ys"
  shows "sorted_wrt (\<lambda>a b. cmp a b \<le> 0) (insertBy cmp x ys)"
  using s
proof (induction ys)
  case Nil
  then show ?case by simp
next
  case (Cons y ys)
  show ?case
  proof (cases "cmp x y \<le> 0")
    case True
    then have "\<forall>z\<in>set ys. cmp x z \<le> 0" using Cons.prems tr by auto
    with True Cons.prems show ?thesis by simp
  next
    case False
    then have "cmp y x \<le> 0" using tot[of x y] by auto
    with False Cons show ?thesis by (auto simp: set_insertBy)
  qed
qed

lemma sorted_sortBy:
  assumes tot: "\<And>a b. cmp a b \<le> 0 \<or> cmp b a \<le> 0"
    and tr: "\<And>a b c. cmp a b \<le> 0 \<Longrightarrow> cmp b c \<le> 0 \<Longrightarrow> cmp a c \<le> 0"
  shows "sorted_wrt (\<lambda>a b. cmp a b \<le> 0) (sortBy cmp xs)"
proof (induction xs)
  case Nil
  then show ?case by (simp add: sortBy_Nil)
next
  case (Cons x xs)
  then show ?case using sorted_insertBy[of cmp, OF tot tr] by (simp add: sortBy_Cons)
qed

lemma codeCompare_total: "codeCompare a b \<le> 0 \<or> codeCompare b a \<le> 0"
  by (induction a b rule: codeCompare.induct) auto

lemma codeCompare_Cons_le:
  "codeCompare (x # xs) (y # ys) \<le> 0 \<longleftrightarrow>
     (of_char x :: nat) < of_char y \<or> ((of_char x :: nat) = of_char y \<and> codeCompare xs ys \<le> 0)"
  by auto

lemma codeCompare_Nil_le: "codeCompare [] b \<le> 0"
  by (cases b) simp_all

lemma codeCompare_le_Nil: "codeCompare a [] \<le> 0 \<longleftrightarrow> a = []"
  by (cases a) simp_all

lemma codeCompare_trans:
  "codeCompare a b \<le> 0 \<Longrightarrow> codeCompare b c \<le> 0 \<Longrightarrow> codeCompare a c \<le> 0"
proof (induction a arbitrary: b c)
  case Nil
  then show ?case by (simp add: codeCompare_Nil_le)
next
  case (Cons x xs)
  from Cons.prems(1) obtain y ys where b: "b = y # ys"
    by (cases b) simp_all
  from Cons.prems(2) b obtain z zs where c: "c = z # zs"
    by (cases c) simp_all
  have 1: "(of_char x :: nat) < of_char y \<or> ((of_char x :: nat) = of_char y \<and> codeCompare xs ys \<le> 0)"
    using Cons.prems(1) unfolding b codeCompare_Cons_le .
  have 2: "(of_char y :: nat) < of_char z \<or> ((of_char y :: nat) = of_char z \<and> codeCompare ys zs \<le> 0)"
    using Cons.prems(2) unfolding b c codeCompare_Cons_le .
  from 1 2 Cons.IH[of ys zs]
  have "(of_char x :: nat) < of_char z \<or> ((of_char x :: nat) = of_char z \<and> codeCompare xs zs \<le> 0)"
    by (elim disjE conjE) simp_all
  then show ?case unfolding c codeCompare_Cons_le .
qed


section \<open>Facts about the tree\<close>

lemma url_facts:
  "extractDomain gitlabUrl = ''gitlab.com''"
  "urlPathPart gitlabUrl = ''org/team/proj''"
  "extractOwner gitlabUrl = ''org/team''"
  by (simp_all add: gitlabUrl_def extractDomain_def extractOwner_def urlPathPart_def sshPrefixes_def
      httpPrefixes_def stripPrefix_def startsWith_def hostRun_def authorityRun_def nonEmpty_def
      httpsOwner_def matchPathTail_def isLineTerminator_def pathSegments_def Let_def)



lemma containsCurrentWorkspace_Nil: "containsCurrentWorkspace [] cwp = False"
  by (simp add: containsCurrentWorkspace_def split: option.splits)




text \<open>
  Claim C10. The children of a repository node are non-empty only if the repository has
  more than one worktree; then they are the worktrees that are not the main one, sorted by
  name with \<open>localeCompare\<close>: the same worktrees, none of them main, and in ascending order
  whenever the comparator is a total preorder.
\<close>

theorem repository_children_secondary_worktrees:
  "(repositoryGetChildren lc cwp repo \<noteq> [] \<longrightarrow> length (worktrees repo) > 1)
   \<and> (length (worktrees repo) > 1 \<longrightarrow>
        map worktree (repositoryGetChildren lc cwp repo)
          = sortBy (\<lambda>a b. lc (wt_name a) (wt_name b)) (filter (\<lambda>wt. \<not> isMain wt) (worktrees repo))
        \<and> mset (map worktree (repositoryGetChildren lc cwp repo))
          = filter_mset (\<lambda>wt. \<not> isMain wt) (mset (worktrees repo)))
   \<and> (\<forall>n\<in>set (repositoryGetChildren lc cwp repo). \<not> isMain (worktree n))
   \<and> ((\<forall>a b. lc a b \<le> 0 \<or> lc b a \<le> 0) \<and> (\<forall>a b c. lc a b \<le> 0 \<and> lc b c \<le> 0 \<longrightarrow> lc a c \<le> 0)
        \<longrightarrow> sorted_wrt (\<lambda>m n. lc (wt_name (worktree m)) (wt_name (worktree n)) \<le> 0)
              (repositoryGetChildren lc cwp repo))"
proof -
  let ?cmp = "\<lambda>a b. lc (wt_name a) (wt_name b)"
  let ?sec = "filter (\<lambda>wt. \<not> isMain wt) (worktrees repo)"
  have w: "map worktree (map (\<lambda>wt. newWorktreeNode wt cwp) xs) = xs" for xs
    by (induction xs) (simp_all add: newWorktreeNode_def Let_def)
  have a: "repositoryGetChildren lc cwp repo \<noteq> [] \<longrightarrow> length (worktrees repo) > 1"
    by (simp add: repositoryGetChildren_def)
  have b: "length (worktrees repo) > 1 \<longrightarrow>
        map worktree (repositoryGetChildren lc cwp repo) = sortBy ?cmp ?sec
        \<and> mset (map worktree (repositoryGetChildren lc cwp repo))
          = filter_mset (\<lambda>wt. \<not> isMain wt) (mset (worktrees repo))"
    using w[of "sortBy ?cmp ?sec"] mset_sortBy[of ?cmp ?sec]
    by (simp add: repositoryGetChildren_def)
  have c: "\<forall>n\<in>set (repositoryGetChildren lc cwp repo). \<not> isMain (worktree n)"
    by (auto simp: repositoryGetChildren_def set_sortBy newWorktreeNode_def Let_def)
  have d: "sorted_wrt (\<lambda>m n. lc (wt_name (worktree m)) (wt_name (worktree n)) \<le> 0)
              (repositoryGetChildren lc cwp repo)"
    if tot: "\<forall>a b. lc a b \<le> 0 \<or> lc b a \<le> 0"
      and tr: "\<forall>a b c. lc a b \<le> 0 \<and> lc b c \<le> 0 \<longrightarrow> lc a c \<le> 0"
  proof -
    have s: "sorted_wrt (\<lambda>a b. ?cmp a b \<le> 0) (sortBy ?cmp ?sec)"
      by (rule sorted_sortBy) (use tot tr in blast)+
    have "sorted_wrt (\<lambda>m n. ?cmp (worktree m) (worktree n) \<le> 0)
            (map (\<lambda>wt. newWorktreeNode wt cwp) xs) = sorted_wrt (\<lambda>a b. ?cmp a b \<le> 0) xs" for xs
      by (simp add: sorted_wrt_map newWorktreeNode_def Let_def)
    with s show ?thesis by (simp add: repositoryGetChildren_def)
  qed
  from a b c d show ?thesis by blast
qed

theorem repository_children_secondary_worktrees_witness:
  "length (worktrees repoR) > 1
   \<and> map worktree (repositoryGetChildren codeCompare None repoR) = [wtSecond]
   \<and> \<not> isMain wtSecond
   \<and> sorted_wrt (\<lambda>m n. codeCompare (wt_name (worktree m)) (wt_name (worktree n)) \<le> 0)
        (repositoryGetChildren codeCompare None repoR)"
proof -
  have len: "length (worktrees repoR) > 1" by (simp add: repoR_def)
  have sec: "sortBy (\<lambda>a b. codeCompare (wt_name a) (wt_name b))
               (filter (\<lambda>wt. \<not> isMain wt) (worktrees repoR)) = [wtSecond]"
    by (simp add: repoR_def wtMain_def wtSecond_def sortBy_def)
  have ord: "(\<forall>a b. codeCompare a b \<le> 0 \<or> codeCompare b a \<le> 0)
             \<and> (\<forall>a b c. codeCompare a b \<le> 0 \<and> codeCompare b c \<le> 0 \<longrightarrow> codeCompare a c \<le> 0)"
    using codeCompare_total codeCompare_trans by blast
  have m: "\<not> isMain wtSecond" by (simp add: wtSecond_def)
  from repository_children_secondary_worktrees[of codeCompare None repoR] len ord
  have "map worktree (repositoryGetChildren codeCompare None repoR)
          = sortBy (\<lambda>a b. codeCompare (wt_name a) (wt_name b)) (filter (\<lambda>wt. \<not> isMain wt) (worktrees repoR))"
    and "sorted_wrt (\<lambda>m n. codeCompare (wt_name (worktree m)) (wt_name (worktree n)) \<le> 0)
        (repositoryGetChildren codeCompare None repoR)"
    by blast+
  with len sec m show ?thesis by simp
qed

text \<open>
  Claim C6, as stated, fails: with the worktree \<open>/r-wt\<close> of the repository \<open>/r\<close> open, the
  worktree node is marked, and so is the repository node, whose own path is not the
  active path.
\<close>

theorem repository_current_counterexample:
  "rn_icon (newRepositoryNode repoR (Some ''/r-wt'')) = ''repo-selected''
   \<and> rn_state (newRepositoryNode repoR (Some ''/r-wt'')) = Expanded
   \<and> repo_path repoR = ''/r''
   \<and> map (\<lambda>w. (wt_path (worktree w), wn_icon w))
        (repositoryGetChildren codeCompare (Some ''/r-wt'') repoR) = [(''/r-wt'', ''git-branch'')]"
  by (simp add: newRepositoryNode_def isCurrentlyOpen_def repoR_def wtMain_def wtSecond_def
      repositoryGetChildren_def sortBy_def newWorktreeNode_def Let_def)

text \<open>
  Claim C6, amended. A repository node is marked current exactly when the active path is
  defined, not empty and equal to its root path or to the path of one of its worktrees; a
  worktree node is marked current exactly when its own path equals the active path.
\<close>

theorem current_marks:
  "(rn_icon (newRepositoryNode repo cwp) = ''repo-selected''
      \<longleftrightarrow> (\<exists>p. cwp = Some p \<and> p \<noteq> [] \<and> (p = repo_path repo \<or> p \<in> wt_path ` set (worktrees repo))))
   \<and> (wn_icon (newWorktreeNode wt cwp) = ''git-branch'' \<longleftrightarrow> cwp = Some (wt_path wt))"
proof
  have "isCurrentlyOpen repo cwp
        \<longleftrightarrow> (\<exists>p. cwp = Some p \<and> p \<noteq> [] \<and> (p = repo_path repo \<or> p \<in> wt_path ` set (worktrees repo)))"
    by (cases cwp) (auto simp: isCurrentlyOpen_def list_ex_iff image_iff)
  then show "rn_icon (newRepositoryNode repo cwp) = ''repo-selected''
      \<longleftrightarrow> (\<exists>p. cwp = Some p \<and> p \<noteq> [] \<and> (p = repo_path repo \<or> p \<in> wt_path ` set (worktrees repo)))"
    by (simp add: newRepositoryNode_def Let_def)
next
  show "wn_icon (newWorktreeNode wt cwp) = ''git-branch'' \<longleftrightarrow> cwp = Some (wt_path wt)"
    by (simp add: newWorktreeNode_def Let_def)
qed

lemma updateExpansionState_None: "updateExpansionState None n = n"
  by (cases n) simp_all

lemma allCollapsed_newOwnerNode: "allCollapsed (newOwnerNode own fp [] dm cwp)"
  by (simp add: newOwnerNode_def containsCurrentWorkspace_Nil)

lemma list_all_mapSet:
  "P v \<Longrightarrow> list_all P (map snd m) \<Longrightarrow> list_all P (map snd (mapSet k v m))"
  by (induction m) auto

lemma list_all_mapGet:
  "list_all P (map snd m) \<Longrightarrow> mapGet m k = Some v \<Longrightarrow> P v"
  by (induction m) (auto simp: mapGet_def split: if_splits)

lemma allCollapsed_addRepository:
  "allCollapsed n \<Longrightarrow> allCollapsed (addRepository domain cwp repo full segments n)"
proof (induction segments arbitrary: n full)
  case Nil
  then show ?case by (cases n) simp_all
next
  case (Cons segment segments)
  show ?case
  proof (cases n)
    case (RepositoryNode r st icon)
    with Cons.prems show ?thesis by simp
  next
    case (OwnerNode own fp repos dm st chs)
    let ?full = "if full \<noteq> [] then full @ ''/'' @ segment else segment"
    let ?child = "case mapGet chs segment of
               Some (OwnerNode own' fp' repos' dm' st' chs') \<Rightarrow>
                 OwnerNode own' fp' repos' dm' st' chs'
             | _ \<Rightarrow> newOwnerNode segment ?full [] (Some domain) cwp"
    have chs: "list_all allCollapsed (map snd chs)" and st: "st = Collapsed"
      using Cons.prems OwnerNode by simp_all
    have "allCollapsed ?child"
      using list_all_mapGet[OF chs, of segment]
      by (auto simp: allCollapsed_newOwnerNode split: option.splits OwnerOrRepositoryNode.splits)
    then have "allCollapsed (addRepository domain cwp repo ?full segments ?child)"
      by (rule Cons.IH)
    then show ?thesis
      using OwnerNode chs st by (simp add: Let_def list_all_mapSet)
  qed
qed

lemma allCollapsed_fold:
  "allCollapsed n \<Longrightarrow> allCollapsed (fold (addToOwnerTree domain cwp) repos n)"
  by (induction repos arbitrary: n)
     (simp_all add: addToOwnerTree_def allCollapsed_addRepository Let_def)

lemma allCollapsed_buildOwnerTree: "allCollapsed (buildOwnerTree domain repos None)"
  by (simp add: buildOwnerTree_def updateExpansionState_None allCollapsed_fold
      allCollapsed_newOwnerNode)

lemma allCollapsed_newRepositoryNode: "allCollapsed (newRepositoryNode repo None)"
  by (simp add: newRepositoryNode_def isCurrentlyOpen_def Let_def)

lemma allCollapsed_ownerGetChildren:
  "allCollapsed n \<Longrightarrow> c \<in> set (ownerGetChildren lc None n) \<Longrightarrow> allCollapsed c"
  by (cases n) (auto simp: set_sortBy list_all_iff allCollapsed_newRepositoryNode split: if_splits)

lemma quiet_roots: "n \<in> set (getRemoteViewRootNodes repos None) \<Longrightarrow> quiet n"
  by (auto simp: getRemoteViewRootNodes_def newDomainNode_def containsCurrentWorkspace_def
      newLocalGroupNode_def Let_def split: if_splits)

lemma quiet_children:
  "quiet m \<Longrightarrow> n \<in> set (getChildren lc repos None (Some m)) \<Longrightarrow> quiet n"
proof (cases m)
  case (OwnerOrRepo x)
  assume q: "quiet m" and n: "n \<in> set (getChildren lc repos None (Some m))"
  show ?thesis
  proof (cases x)
    case (OwnerNode own fp rs dm st chs)
    with q n OwnerOrRepo show ?thesis
      using allCollapsed_ownerGetChildren[of x _ lc] by auto
  next
    case (RepositoryNode r st icon)
    with n OwnerOrRepo show ?thesis
      by (auto simp: repositoryGetChildren_def newWorktreeNode_def Let_def split: if_splits)
  qed
qed (auto simp: getOwnerNodes_def allCollapsed_newRepositoryNode
      dest: allCollapsed_ownerGetChildren[OF allCollapsed_buildOwnerTree])

lemma treeNode_quiet: "treeNode lc repos None n \<Longrightarrow> quiet n"
  by (induction rule: treeNode.induct) (auto intro: quiet_roots quiet_children)

lemma localGroup_only_root:
  "LocalGroup g \<in> set (getChildren lc repositories cwp (Some m)) \<Longrightarrow> False"
proof (cases m)
  case (OwnerOrRepo x)
  assume "LocalGroup g \<in> set (getChildren lc repositories cwp (Some m))"
  with OwnerOrRepo show False by (cases x) auto
qed auto

lemma localGroup_expanded:
  assumes "treeNode lc repositories cwp (LocalGroup g)"
  shows "lg_state g = Expanded"
  using assms
proof (cases rule: treeNode.cases)
  case root
  then show ?thesis
    by (auto simp: getRemoteViewRootNodes_def newLocalGroupNode_def Let_def split: if_splits)
next
  case (child m)
  then show ?thesis using localGroup_only_root by blast
qed

text \<open>
  Claim C5, as stated, fails: the group of repositories without a remote is built
  expanded, whatever the workspace.
\<close>

theorem local_group_expanded_counterexample:
  "getChildren codeCompare [localRepo] None None
     = [LocalGroup \<lparr>lg_repositories = [localRepo], lg_state = Expanded\<rparr>]"
  by (simp add: getRemoteViewRootNodes_def hasRemote_def localRepo_def newLocalGroupNode_def)

text \<open>
  Claim C5, amended. When the active workspace path is undefined, every node of the tree
  other than the local group node is in its collapsed, non-current state, and the local
  group node is expanded; the local group node is expanded whatever the workspace path.
\<close>

theorem no_workspace_all_collapsed:
  "(treeNode lc repositories None n \<longrightarrow>
      (case n of LocalGroup g \<Rightarrow> lg_state g = Expanded | _ \<Rightarrow> nonCurrent n))
   \<and> (treeNode lc repositories cwp (LocalGroup g) \<longrightarrow> lg_state g = Expanded)"
proof (intro conjI impI)
  assume "treeNode lc repositories None n"
  then have q: "quiet n" by (rule treeNode_quiet)
  show "case n of LocalGroup g \<Rightarrow> lg_state g = Expanded | _ \<Rightarrow> nonCurrent n"
  proof (cases n)
    case (OwnerOrRepo x)
    with q show ?thesis by (cases x) simp_all
  qed (use q in simp_all)
next
  assume "treeNode lc repositories cwp (LocalGroup g)"
  then show "lg_state g = Expanded" by (rule localGroup_expanded)
qed

theorem no_workspace_all_collapsed_witness:
  "treeNode codeCompare [repoR, localRepo] None
     (Domain \<lparr>dn_domain = ''gitlab.com'', dn_repositories = [repoR], dn_state = Collapsed\<rparr>)
   \<and> nonCurrent (Domain \<lparr>dn_domain = ''gitlab.com'', dn_repositories = [repoR], dn_state = Collapsed\<rparr>)
   \<and> treeNode codeCompare [repoR, localRepo] None
        (LocalGroup \<lparr>lg_repositories = [localRepo], lg_state = Expanded\<rparr>)
   \<and> lg_state \<lparr>lg_repositories = [localRepo], lg_state = Expanded\<rparr> = Expanded"
proof -
  let ?d = "Domain \<lparr>dn_domain = ''gitlab.com'', dn_repositories = [repoR], dn_state = Collapsed\<rparr>"
  let ?g = "\<lparr>lg_repositories = [localRepo], lg_state = Expanded\<rparr>"
  have h: "hasRemote repoR" "\<not> hasRemote localRepo" "firstFetchUrl repoR = gitlabUrl"
    by (simp_all add: hasRemote_def repoR_def localRepo_def firstFetchUrl_def gitlabUrl_def)
  have roots: "getRemoteViewRootNodes [repoR, localRepo] None = [?d, LocalGroup ?g]"
    by (simp add: getRemoteViewRootNodes_def h addToDomainMap_def url_facts mapGet_def
        newDomainNode_def newLocalGroupNode_def containsCurrentWorkspace_def Let_def)
  have t: "treeNode codeCompare [repoR, localRepo] None ?d"
    by (rule treeNode.root) (simp add: roots)
  have u: "treeNode codeCompare [repoR, localRepo] None (LocalGroup ?g)"
    by (rule treeNode.root) (simp add: roots)
  from no_workspace_all_collapsed[of codeCompare "[repoR, localRepo]" ?d None ?g] t u
  show ?thesis by simp
qed

section \<open>Facts about the owner tree\<close>

lemma map_fst_mapSet_old: "k \<in> set (map fst m) \<Longrightarrow> map fst (mapSet k v m) = map fst m"
proof (induction m)
  case Nil
  then show ?case by simp
next
  case (Cons a m)
  obtain k' v' where a: "a = (k', v')" by (cases a)
  show ?case
  proof (cases "k' = k")
    case True
    with a show ?thesis by simp
  next
    case False
    then have "k \<in> set (map fst m)" using Cons.prems a by auto
    then have "map fst (mapSet k v m) = map fst m" by (rule Cons.IH)
    with False a show ?thesis by simp
  qed
qed

lemma map_fst_mapSet_new: "k \<notin> set (map fst m) \<Longrightarrow> map fst (mapSet k v m) = map fst m @ [k]"
proof (induction m)
  case Nil
  then show ?case by simp
next
  case (Cons a m)
  obtain k' v' where a: "a = (k', v')" by (cases a)
  have n: "k' \<noteq> k" and "k \<notin> set (map fst m)" using Cons.prems a by auto
  then have "map fst (mapSet k v m) = map fst m @ [k]" using Cons.IH by blast
  with n a show ?case by simp
qed

lemma set_map_fst_mapSet: "set (map fst (mapSet k v m)) = insert k (set (map fst m))"
proof (cases "k \<in> set (map fst m)")
  case True
  then show ?thesis unfolding map_fst_mapSet_old[OF True] by blast
next
  case False
  then show ?thesis unfolding map_fst_mapSet_new[OF False] by simp
qed

lemma distinct_mapSet: "distinct (map fst m) \<Longrightarrow> distinct (map fst (mapSet k v m))"
proof (cases "k \<in> set (map fst m)")
  case True
  assume "distinct (map fst m)"
  then show ?thesis unfolding map_fst_mapSet_old[OF True] .
next
  case False
  assume "distinct (map fst m)"
  then show ?thesis unfolding map_fst_mapSet_new[OF False] using False by simp
qed

lemma in_set_mapSet:
  "distinct (map fst m) \<Longrightarrow> kv \<in> set (mapSet k v m)
     \<Longrightarrow> kv = (k, v) \<or> (kv \<in> set m \<and> fst kv \<noteq> k)"
proof (induction m)
  case Nil
  then show ?case by simp
next
  case (Cons a m)
  obtain k' v' where a: "a = (k', v')" by (cases a)
  show ?case
  proof (cases "k' = k")
    case True
    then have "kv = (k, v) \<or> kv \<in> set m" using Cons.prems(2) a by simp
    moreover have "\<forall>x\<in>set m. fst x \<noteq> k" using Cons.prems(1) a True by auto
    ultimately show ?thesis by auto
  next
    case False
    then have "kv = (k', v') \<or> kv \<in> set (mapSet k v m)" using Cons.prems(2) a by simp
    moreover have "distinct (map fst m)" using Cons.prems(1) by simp
    ultimately show ?thesis using Cons.IH False a by auto
  qed
qed

lemma mapGet_Some_iff:
  "distinct (map fst m) \<Longrightarrow> mapGet m k = Some v \<longleftrightarrow> (k, v) \<in> set m"
  by (simp add: mapGet_def)

lemma mapGet_None_iff: "mapGet m k = None \<longleftrightarrow> k \<notin> set (map fst m)"
  by (simp add: mapGet_def map_of_eq_None_iff)

lemma not_prefix_snoc: "\<not> prefix p s \<Longrightarrow> \<not> prefix (p @ [k]) s"
  by (auto simp: prefix_def)

lemma represents_frame:
  "represents xs p n \<Longrightarrow> \<not> prefix p (ownerSegments r) \<Longrightarrow> represents (xs @ [r]) p n"
proof (induction n arbitrary: p)
  case (OwnerNode own fp rs dm st chs)
  have np: "\<not> prefix (p @ [k]) (ownerSegments r)" for k
    using OwnerNode.prems(2) by (rule not_prefix_snoc)
  have ne: "ownerSegments r \<noteq> p"
    using OwnerNode.prems(2) by auto
  have ch: "\<forall>kc\<in>set chs. represents (xs @ [r]) (p @ [fst kc]) (snd kc)"
  proof
    fix kc assume kc: "kc \<in> set chs"
    then have "represents xs (p @ [fst kc]) (snd kc)" using OwnerNode.prems(1) by simp
    moreover have "snd kc \<in> Basic_BNFs.snds kc" by (cases kc) simp
    ultimately show "represents (xs @ [r]) (p @ [fst kc]) (snd kc)"
      using OwnerNode.IH[OF kc _ _ np] by blast
  qed
  have keys: "{k. \<exists>x\<in>set (xs @ [r]). prefix (p @ [k]) (ownerSegments x)}
              = {k. \<exists>x\<in>set xs. prefix (p @ [k]) (ownerSegments x)}"
    using np by auto
  show ?case using OwnerNode.prems(1) ne ch unfolding represents.simps keys by simp
next
  case (RepositoryNode r st icon)
  then show ?case by simp
qed

lemma joinWith_snoc_nonempty:
  "p \<noteq> [] \<Longrightarrow> joinWith sep (p @ [seg]) = joinWith sep p @ sep @ seg"
proof (induction p)
  case Nil
  then show ?case by simp
next
  case (Cons a p)
  show ?case
  proof (cases p)
    case Nil
    then show ?thesis by simp
  next
    case (Cons b q)
    then have "joinWith sep (p @ [seg]) = joinWith sep p @ sep @ seg"
      using Cons.IH by simp
    then show ?thesis using Cons by simp
  qed
qed

lemma joinWith_nonempty:
  "p \<noteq> [] \<Longrightarrow> \<forall>s\<in>set p. s \<noteq> [] \<Longrightarrow> joinWith sep p \<noteq> []"
proof (cases p)
  case Nil
  assume "p \<noteq> []"
  with Nil show ?thesis by simp
next
  case (Cons a q)
  assume "\<forall>s\<in>set p. s \<noteq> []"
  then have "a \<noteq> []" using Cons by simp
  then show ?thesis using Cons by (cases q) simp_all
qed

lemma joinWith_snoc:
  assumes "\<forall>s\<in>set p. s \<noteq> []"
  shows "(if joinWith sep p \<noteq> [] then joinWith sep p @ sep @ seg else seg) = joinWith sep (p @ [seg])"
proof (cases "p = []")
  case True
  then show ?thesis by simp
next
  case False
  have 1: "joinWith sep p \<noteq> []" using joinWith_nonempty[OF False assms] .
  have 2: "joinWith sep (p @ [seg]) = joinWith sep p @ sep @ seg"
    using joinWith_snoc_nonempty[OF False] .
  show ?thesis unfolding 2 using 1 by simp
qed

lemma represents_newOwnerNode:
  assumes "\<forall>x\<in>set xs. \<not> prefix (p @ [seg]) (ownerSegments x)"
  shows "represents xs (p @ [seg]) (newOwnerNode seg (joinWith ''/'' (p @ [seg])) [] dm cwp)"
proof -
  have b: "filter (\<lambda>r. ownerSegments r = p @ [seg]) xs = []"
    using assms by (auto simp: filter_empty_conv)
  have "\<not> prefix ((p @ [seg]) @ [k]) (ownerSegments r)" if "r \<in> set xs" for r k
    using not_prefix_snoc[of "p @ [seg]" "ownerSegments r" k] assms that by simp
  then have k: "{k. \<exists>r\<in>set xs. prefix ((p @ [seg]) @ [k]) (ownerSegments r)} = {}"
    by simp
  have l: "(if p @ [seg] = [] then [] else last (p @ [seg])) = seg"
    by simp
  show ?thesis unfolding newOwnerNode_def represents.simps b k l by simp
qed

lemma pathSegments_nonempty: "\<forall>s\<in>set (pathSegments x). s \<noteq> []"
  by (simp add: pathSegments_def)

lemma represents_add_Nil:
  assumes "represents xs p (OwnerNode own fp rs dm st chs)" and seg: "ownerSegments r = p"
  shows "represents (xs @ [r]) p (OwnerNode own fp (rs @ [r]) dm st chs)"
proof -
  have np: "\<not> prefix (p @ [k]) (ownerSegments r)" for k
    unfolding seg by simp
  have ch: "\<forall>kc\<in>set chs. represents (xs @ [r]) (p @ [fst kc]) (snd kc)"
  proof
    fix kc assume "kc \<in> set chs"
    then have "represents xs (p @ [fst kc]) (snd kc)" using assms(1) by simp
    then show "represents (xs @ [r]) (p @ [fst kc]) (snd kc)"
      using np by (rule represents_frame)
  qed
  have keys: "{k. \<exists>x\<in>set (xs @ [r]). prefix (p @ [k]) (ownerSegments x)}
              = {k. \<exists>x\<in>set xs. prefix (p @ [k]) (ownerSegments x)}"
    using np by auto
  have b: "filter (\<lambda>r. ownerSegments r = p) (xs @ [r]) = filter (\<lambda>r. ownerSegments r = p) xs @ [r]"
    using seg by simp
  show ?thesis using assms(1) ch unfolding represents.simps keys b by simp
qed

lemma represents_add:
  "represents xs p n \<Longrightarrow> ownerSegments r = p @ rest \<Longrightarrow> full = joinWith ''/'' p
     \<Longrightarrow> \<forall>s\<in>set p. s \<noteq> []
     \<Longrightarrow> represents (xs @ [r]) p (addRepository domain cwp r full rest n)"
proof (induction rest arbitrary: p n full)
  case Nil
  from Nil.prems(1) obtain own fp rs dm st chs where n: "n = OwnerNode own fp rs dm st chs"
    by (cases n) simp_all
  have seg: "ownerSegments r = p" using Nil.prems(2) by simp
  show ?case unfolding n addRepository.simps
    using represents_add_Nil[OF Nil.prems(1)[unfolded n] seg] .
next
  case (Cons seg rest)
  from Cons.prems(1) obtain own fp rs dm st chs where n: "n = OwnerNode own fp rs dm st chs"
    by (cases n) simp_all
  let ?full = "if full \<noteq> [] then full @ ''/'' @ seg else seg"
  let ?child = "case mapGet chs seg of
               Some (OwnerNode own' fp' repos' dm' st' chs') \<Rightarrow>
                 OwnerNode own' fp' repos' dm' st' chs'
             | _ \<Rightarrow> newOwnerNode seg ?full [] (Some domain) cwp"
  let ?new = "addRepository domain cwp r ?full rest ?child"
  have segs: "ownerSegments r = p @ seg # rest" using Cons.prems(2) .
  have d: "distinct (map fst chs)"
    and ks: "set (map fst chs) = {k. \<exists>x\<in>set xs. prefix (p @ [k]) (ownerSegments x)}"
    and cs: "\<forall>kc\<in>set chs. represents xs (p @ [fst kc]) (snd kc)"
    and b: "rs = filter (\<lambda>r. ownerSegments r = p) xs"
    and o: "own = (if p = [] then [] else last p)" "fp = joinWith ''/'' p"
    using Cons.prems(1) n by simp_all
  have full: "?full = joinWith ''/'' (p @ [seg])"
    unfolding Cons.prems(3) using joinWith_snoc[OF Cons.prems(4)] by simp
  have "seg \<in> set (ownerSegments r)" unfolding segs by simp
  then have segne: "seg \<noteq> []"
    using pathSegments_nonempty[of "extractOwner (firstFetchUrl r)"]
    unfolding ownerSegments_def by blast
  have child: "represents xs (p @ [seg]) ?child"
  proof (cases "mapGet chs seg")
    case None
    then have "seg \<notin> set (map fst chs)" by (simp add: mapGet_None_iff)
    then have "seg \<notin> {k. \<exists>x\<in>set xs. prefix (p @ [k]) (ownerSegments x)}"
      unfolding ks .
    then have "\<forall>x\<in>set xs. \<not> prefix (p @ [seg]) (ownerSegments x)" by simp
    then have "represents xs (p @ [seg])
                 (newOwnerNode seg (joinWith ''/'' (p @ [seg])) [] (Some domain) cwp)"
      by (rule represents_newOwnerNode)
    then show ?thesis unfolding None full by simp
  next
    case (Some c)
    then have "(seg, c) \<in> set chs" using d by (simp add: mapGet_Some_iff)
    then have "represents xs (p @ [fst (seg, c)]) (snd (seg, c))" using cs by blast
    then have "represents xs (p @ [seg]) c" by simp
    then show ?thesis unfolding Some by (cases c) simp_all
  qed
  have ne': "\<forall>s\<in>set (p @ [seg]). s \<noteq> []" using Cons.prems(4) segne by simp
  have segs': "ownerSegments r = (p @ [seg]) @ rest" using segs by simp
  have new: "represents (xs @ [r]) (p @ [seg]) ?new"
    using Cons.IH[OF child segs' full ne'] .
  have ch: "\<forall>kc\<in>set (mapSet seg ?new chs). represents (xs @ [r]) (p @ [fst kc]) (snd kc)"
  proof
    fix kc assume "kc \<in> set (mapSet seg ?new chs)"
    then consider "kc = (seg, ?new)" | "kc \<in> set chs" "fst kc \<noteq> seg"
      using in_set_mapSet[OF d] by blast
    then show "represents (xs @ [r]) (p @ [fst kc]) (snd kc)"
    proof cases
      case 1
      then show ?thesis using new by simp
    next
      case 2
      have np: "\<not> prefix (p @ [fst kc]) (ownerSegments r)"
        unfolding segs using 2(2) by simp
      have "represents xs (p @ [fst kc]) (snd kc)" using cs 2(1) by blast
      then show ?thesis using np by (rule represents_frame)
    qed
  qed
  have pk: "prefix (p @ [k]) (ownerSegments r) \<longleftrightarrow> k = seg" for k
    unfolding segs by auto
  have "{k. \<exists>x\<in>set (xs @ [r]). prefix (p @ [k]) (ownerSegments x)}
        = insert seg {k. \<exists>x\<in>set xs. prefix (p @ [k]) (ownerSegments x)}"
    by (auto simp: pk)
  then have keys: "{k. \<exists>x\<in>set (xs @ [r]). prefix (p @ [k]) (ownerSegments x)}
              = insert seg (set (map fst chs))"
    unfolding ks .
  have bucket: "filter (\<lambda>r. ownerSegments r = p) (xs @ [r]) = rs"
    using b segs by simp
  have a: "addRepository domain cwp r full (seg # rest) n
        = OwnerNode own fp rs dm st (mapSet seg ?new chs)"
    unfolding n by (simp add: Let_def)
  show ?case unfolding a represents.simps keys bucket set_map_fst_mapSet
    using o ch distinct_mapSet[OF d, of seg ?new] by simp
qed

lemma represents_fold:
  "represents ys [] n \<Longrightarrow>
     represents (ys @ inserted xs) [] (fold (addToOwnerTree domain cwp) xs n)"
proof (induction xs arbitrary: ys n)
  case Nil
  then show ?case by (simp add: inserted_def)
next
  case (Cons x xs)
  have f: "fold (addToOwnerTree domain cwp) (x # xs) n
           = fold (addToOwnerTree domain cwp) xs (addToOwnerTree domain cwp x n)"
    by simp
  show ?case
  proof (cases "hasRemote x \<and> ownerSegments x \<noteq> []")
    case True
    then have 1: "addToOwnerTree domain cwp x n = addRepository domain cwp x [] (ownerSegments x) n"
      by (simp add: addToOwnerTree_def Let_def)
    have 2: "represents (ys @ [x]) [] (addToOwnerTree domain cwp x n)"
      unfolding 1 using Cons.prems by (intro represents_add) simp_all
    have 3: "ys @ inserted (x # xs) = (ys @ [x]) @ inserted xs"
      using True by (simp add: inserted_def)
    show ?thesis unfolding f 3 by (rule Cons.IH[OF 2])
  next
    case False
    then have 1: "addToOwnerTree domain cwp x n = n"
      by (auto simp: addToOwnerTree_def Let_def)
    have 3: "inserted (x # xs) = inserted xs"
      using False by (auto simp: inserted_def)
    show ?thesis unfolding f 1 3 by (rule Cons.IH[OF Cons.prems])
  qed
qed

lemma represents_update:
  "represents xs p (updateExpansionState cwp n) = represents xs p n"
proof (induction n arbitrary: p)
  case (OwnerNode own fp rs dm st chs)
  show ?case
  proof (cases "cwp = None \<or> cwp = Some []")
    case True
    then have "updateExpansionState cwp (OwnerNode own fp rs dm st chs) = OwnerNode own fp rs dm st chs"
      by auto
    then show ?thesis by (simp only:)
  next
    case False
    then obtain w where w: "cwp = Some w" "w \<noteq> []" by (cases cwp) auto
    let ?chs = "map (\<lambda>kc. (fst kc, updateExpansionState cwp (snd kc))) chs"
    have k: "map fst ?chs = map fst chs"
      by (simp add: comp_def)
    have c: "(\<forall>kc\<in>set ?chs. represents xs (p @ [fst kc]) (snd kc))
             = (\<forall>kc\<in>set chs. represents xs (p @ [fst kc]) (snd kc))"
    proof -
      have "represents xs (p @ [fst kc]) (updateExpansionState cwp (snd kc))
            = represents xs (p @ [fst kc]) (snd kc)" if "kc \<in> set chs" for kc
      proof -
        have "snd kc \<in> Basic_BNFs.snds kc" by (cases kc) simp
        then show ?thesis using OwnerNode.IH[OF that] by blast
      qed
      then show ?thesis by simp
    qed
    have u: "updateExpansionState cwp (OwnerNode own fp rs dm st chs)
          = OwnerNode own fp rs dm
              (if containsCurrentWorkspaceRecursive w (OwnerNode own fp rs dm st chs)
               then Expanded else st) ?chs"
      using w by simp
    show ?thesis unfolding u represents.simps k c ..
  qed
next
  case (RepositoryNode r st icon)
  then show ?case by simp
qed

lemma represents_buildOwnerTree:
  "represents (inserted xs) [] (buildOwnerTree domain xs cwp)"
proof -
  have "represents [] [] (newOwnerNode [] [] [] (Some domain) cwp)"
    by (simp add: newOwnerNode_def)
  from represents_fold[OF this, of xs domain cwp] show ?thesis
    by (simp add: buildOwnerTree_def represents_update)
qed

lemma domainMapOf_add:
  assumes "domainMapOf xs m"
  shows "domainMapOf (xs @ [x]) (addToDomainMap x m)"
proof -
  let ?d = "repoDomain x"
  let ?old = "case mapGet m ?d of None \<Rightarrow> [] | Some repos \<Rightarrow> repos"
  have d: "distinct (map fst m)" and ks: "set (map fst m) = repoDomain ` set xs"
    and bs: "\<forall>kv\<in>set m. snd kv = filter (\<lambda>r. repoDomain r = fst kv) xs"
    using assms unfolding domainMapOf_def by simp_all
  have a: "addToDomainMap x m = mapSet ?d (?old @ [x]) m"
    by (simp add: addToDomainMap_def repoDomain_def Let_def)
  have old: "?old = filter (\<lambda>r. repoDomain r = ?d) xs"
  proof (cases "mapGet m ?d")
    case None
    then have "?d \<notin> repoDomain ` set xs" using ks by (simp add: mapGet_None_iff)
    then have "\<forall>r\<in>set xs. repoDomain r \<noteq> ?d"
      by (metis imageI)
    then have "filter (\<lambda>r. repoDomain r = ?d) xs = []"
      by (simp add: filter_empty_conv)
    then show ?thesis using None by simp
  next
    case (Some rs)
    then have "(?d, rs) \<in> set m" using d by (simp add: mapGet_Some_iff)
    then have "snd (?d, rs) = filter (\<lambda>r. repoDomain r = fst (?d, rs)) xs" using bs by blast
    then show ?thesis using Some by simp
  qed
  have b': "\<forall>kv\<in>set (mapSet ?d (?old @ [x]) m).
              snd kv = filter (\<lambda>r. repoDomain r = fst kv) (xs @ [x])"
  proof
    fix kv assume "kv \<in> set (mapSet ?d (?old @ [x]) m)"
    then consider "kv = (?d, ?old @ [x])" | "kv \<in> set m" "fst kv \<noteq> ?d"
      using in_set_mapSet[OF d] by blast
    then show "snd kv = filter (\<lambda>r. repoDomain r = fst kv) (xs @ [x])"
    proof cases
      case 1
      then show ?thesis using old by simp
    next
      case 2
      then have "snd kv = filter (\<lambda>r. repoDomain r = fst kv) xs" using bs by blast
      then show ?thesis using 2(2) by simp
    qed
  qed
  have k': "set (map fst (mapSet ?d (?old @ [x]) m)) = repoDomain ` set (xs @ [x])"
    unfolding set_map_fst_mapSet ks by simp
  show ?thesis unfolding domainMapOf_def a
    using distinct_mapSet[OF d] k' b' by blast
qed

lemma domainMapOf_fold:
  "domainMapOf ys m \<Longrightarrow> domainMapOf (ys @ xs) (fold addToDomainMap xs m)"
proof (induction xs arbitrary: ys m)
  case Nil
  then show ?case by simp
next
  case (Cons x xs)
  have "domainMapOf ((ys @ [x]) @ xs) (fold addToDomainMap xs (addToDomainMap x m))"
    by (rule Cons.IH) (rule domainMapOf_add[OF Cons.prems])
  then show ?case by simp
qed

lemma domainMapOf_build: "domainMapOf xs (fold addToDomainMap xs [])"
proof -
  have "domainMapOf [] []" by (simp add: domainMapOf_def)
  from domainMapOf_fold[OF this, of xs] show ?thesis by simp
qed

lemma hides_children:
  "hides r1 n \<Longrightarrow> c \<in> set (ownerGetChildren lc cwp n) \<Longrightarrow> hides r1 c"
proof (cases n)
  case (OwnerNode own fp rs dm st chs)
  assume h: "hides r1 n" and c: "c \<in> set (ownerGetChildren lc cwp n)"
  show ?thesis
  proof (cases "chs = []")
    case True
    then obtain r where "r \<in> set rs" "c = newRepositoryNode r cwp"
      using c OwnerNode by auto
    moreover have "r1 \<notin> set rs" using h OwnerNode True by simp
    ultimately show ?thesis by (auto simp: newRepositoryNode_def Let_def)
  next
    case False
    then have "c \<in> set (map snd chs)" using c OwnerNode by (simp add: set_sortBy)
    moreover have "list_all (hides r1) (map snd chs)" using h OwnerNode False by simp
    ultimately show ?thesis unfolding list_all_iff by blast
  qed
next
  case (RepositoryNode r st icon)
  assume "c \<in> set (ownerGetChildren lc cwp n)"
  with RepositoryNode show ?thesis by simp
qed

lemma hides_represents:
  assumes "represents xs p n"
    and "r1 \<in> set xs \<longrightarrow> (\<exists>r2\<in>set xs. \<exists>q. q \<noteq> [] \<and> ownerSegments r2 = ownerSegments r1 @ q)"
  shows "hides r1 n"
  using assms(1)
proof (induction n arbitrary: p)
  case (OwnerNode own fp rs dm st chs)
  have b: "rs = filter (\<lambda>r. ownerSegments r = p) xs"
    and ks: "set (map fst chs) = {k. \<exists>r\<in>set xs. prefix (p @ [k]) (ownerSegments r)}"
    and cs: "\<forall>kc\<in>set chs. represents xs (p @ [fst kc]) (snd kc)"
    using OwnerNode.prems by simp_all
  show ?case
  proof (cases "chs = []")
    case True
    have "r1 \<notin> set rs"
    proof
      assume "r1 \<in> set rs"
      then have in_xs: "r1 \<in> set xs" and seg: "ownerSegments r1 = p" unfolding b by simp_all
      then obtain r2 q where r2: "r2 \<in> set xs" "q \<noteq> []" "ownerSegments r2 = p @ q"
        using assms(2) by auto
      then obtain k q' where "q = k # q'" by (cases q) auto
      then have "prefix (p @ [k]) (ownerSegments r2)" using r2(3) by simp
      then have "k \<in> {k. \<exists>r\<in>set xs. prefix (p @ [k]) (ownerSegments r)}" using r2(1) by blast
      then have "k \<in> set (map fst chs)" unfolding ks .
      then show False using True by simp
    qed
    then show ?thesis using True by simp
  next
    case False
    have "hides r1 (snd kc)" if "kc \<in> set chs" for kc
    proof -
      have "snd kc \<in> Basic_BNFs.snds kc" by (cases kc) simp
      moreover have "represents xs (p @ [fst kc]) (snd kc)" using cs that by blast
      ultimately show ?thesis using OwnerNode.IH[OF that] by blast
    qed
    then show ?thesis using False by (simp add: list_all_iff)
  qed
next
  case (RepositoryNode r st icon)
  then show ?case by simp
qed

lemma inserted_iff: "r \<in> set (inserted xs) \<longleftrightarrow> r \<in> set xs \<and> hasRemote r \<and> ownerSegments r \<noteq> []"
  by (simp add: inserted_def)

lemma hides_getOwnerNodes:
  assumes "r1 \<in> set rs \<longrightarrow> (\<exists>r2\<in>set rs. hasRemote r2 \<and> (\<exists>q. q \<noteq> [] \<and> ownerSegments r2 = ownerSegments r1 @ q))"
  shows "list_all (hides r1) (getOwnerNodes lc cwp domain rs)"
proof -
  have c: "r1 \<in> set (inserted rs) \<longrightarrow>
           (\<exists>r2\<in>set (inserted rs). \<exists>q. q \<noteq> [] \<and> ownerSegments r2 = ownerSegments r1 @ q)"
  proof
    assume "r1 \<in> set (inserted rs)"
    then have "r1 \<in> set rs" by (simp add: inserted_iff)
    then obtain r2 q where r2: "r2 \<in> set rs" "hasRemote r2" "q \<noteq> []"
      "ownerSegments r2 = ownerSegments r1 @ q"
      using assms by blast
    then have "r2 \<in> set (inserted rs)" by (simp add: inserted_iff)
    then show "\<exists>r2\<in>set (inserted rs). \<exists>q. q \<noteq> [] \<and> ownerSegments r2 = ownerSegments r1 @ q"
      using r2(3,4) by blast
  qed
  have "hides r1 (buildOwnerTree domain rs cwp)"
    using represents_buildOwnerTree c by (rule hides_represents)
  then show ?thesis
    unfolding getOwnerNodes_def list_all_iff using hides_children by blast
qed

lemma notShown_roots:
  assumes r1: "hasRemote r1"
    and r2: "r2 \<in> set repositories" "hasRemote r2" "repoDomain r1 = repoDomain r2"
      "q \<noteq> []" "ownerSegments r2 = ownerSegments r1 @ q"
    and n: "n \<in> set (getRemoteViewRootNodes repositories cwp)"
  shows "notShown r1 lc cwp n"
proof -
  let ?with = "filter hasRemote repositories"
  let ?m = "fold addToDomainMap ?with []"
  from n consider "n = EmptyState"
    | d rs where "(d, rs) \<in> set ?m" "n = Domain (newDomainNode d rs cwp)"
    | "n = LocalGroup (newLocalGroupNode (filter (\<lambda>repo. \<not> hasRemote repo) repositories))"
    by (auto simp: getRemoteViewRootNodes_def Let_def split: if_splits)
  then show ?thesis
  proof cases
    case 1
    then show ?thesis by simp
  next
    case 2
    have "snd (d, rs) = filter (\<lambda>r. repoDomain r = fst (d, rs)) ?with"
      using domainMapOf_build[of ?with] 2(1) unfolding domainMapOf_def by blast
    then have rs: "rs = filter (\<lambda>r. repoDomain r = d) ?with" by simp
    have "r1 \<in> set rs \<longrightarrow>
          (\<exists>r2\<in>set rs. hasRemote r2 \<and> (\<exists>q. q \<noteq> [] \<and> ownerSegments r2 = ownerSegments r1 @ q))"
    proof
      assume "r1 \<in> set rs"
      then have "repoDomain r1 = d" unfolding rs by simp
      then have "r2 \<in> set rs" unfolding rs using r2 by simp
      then show "\<exists>r2\<in>set rs. hasRemote r2 \<and> (\<exists>q. q \<noteq> [] \<and> ownerSegments r2 = ownerSegments r1 @ q)"
        using r2(2,4,5) by blast
    qed
    then have "list_all (hides r1) (getOwnerNodes lc cwp d rs)"
      by (rule hides_getOwnerNodes)
    then show ?thesis using 2(2) by (simp add: newDomainNode_def)
  next
    case 3
    then show ?thesis using r1 by (simp add: newLocalGroupNode_def)
  qed
qed

lemma notShown_children:
  assumes "notShown r1 lc cwp m" and "n \<in> set (getChildren lc repositories cwp (Some m))"
  shows "notShown r1 lc cwp n"
proof (cases m)
  case EmptyState
  then show ?thesis using assms(2) by simp
next
  case (Domain d)
  then show ?thesis using assms by (auto simp: list_all_iff)
next
  case (OwnerOrRepo x)
  show ?thesis
  proof (cases x)
    case (OwnerNode own fp rs dm st chs)
    then obtain c where "c \<in> set (ownerGetChildren lc cwp x)" "n = OwnerOrRepo c"
      using assms(2) OwnerOrRepo by auto
    moreover have "hides r1 x" using assms(1) OwnerOrRepo by simp
    ultimately show ?thesis using hides_children by auto
  next
    case (RepositoryNode r st icon)
    then show ?thesis using assms(2) OwnerOrRepo by auto
  qed
next
  case (LocalGroup g)
  then obtain r where "r \<in> set (lg_repositories g)" "n = OwnerOrRepo (newRepositoryNode r cwp)"
    using assms(2) by auto
  moreover have "r1 \<notin> set (lg_repositories g)" using assms(1) LocalGroup by simp
  ultimately show ?thesis by (auto simp: newRepositoryNode_def Let_def)
next
  case (Worktree w)
  then show ?thesis using assms(2) by simp
qed

lemma treeNode_notShown:
  assumes "hasRemote r1" "r2 \<in> set repositories" "hasRemote r2" "repoDomain r1 = repoDomain r2"
      "q \<noteq> []" "ownerSegments r2 = ownerSegments r1 @ q"
    and "treeNode lc repositories cwp n"
  shows "notShown r1 lc cwp n"
  using assms(7)
proof (induction rule: treeNode.induct)
  case (root n)
  then show ?case using notShown_roots[OF assms(1-6)] by simp
next
  case (child m n)
  then show ?case using notShown_children by blast
qed

lemma compareNodes_total:
  assumes "\<forall>a b. lc a b \<le> 0 \<or> lc b a \<le> 0"
  shows "compareNodes lc x y \<le> 0 \<or> compareNodes lc y x \<le> 0"
  using assms by (cases x; cases y) simp_all

lemma compareNodes_trans:
  assumes tr: "\<And>a b c. lc a b \<le> 0 \<Longrightarrow> lc b c \<le> 0 \<Longrightarrow> lc a c \<le> 0"
    and xy: "compareNodes lc x y \<le> 0" and yz: "compareNodes lc y z \<le> 0"
  shows "compareNodes lc x z \<le> 0"
proof (cases x)
  case x: (OwnerNode ox fx rx dx sx cx)
  show ?thesis
  proof (cases z)
    case z: (OwnerNode oz fz rz dz sz cz)
    show ?thesis
    proof (cases y)
      case y: (OwnerNode oy fy ry dy sy cy)
      have "lc ox oy \<le> 0" using xy unfolding x y by simp
      moreover have "lc oy oz \<le> 0" using yz unfolding y z by simp
      ultimately have "lc ox oz \<le> 0" by (rule tr)
      then show ?thesis unfolding x z by simp
    next
      case y: (RepositoryNode r s i)
      show ?thesis using yz unfolding y z by simp
    qed
  next
    case z: (RepositoryNode r s i)
    show ?thesis unfolding x z by simp
  qed
next
  case x: (RepositoryNode r s i)
  show ?thesis
  proof (cases y)
    case y: (OwnerNode oy fy ry dy sy cy)
    show ?thesis using xy unfolding x y by simp
  next
    case y: (RepositoryNode r' s' i')
    show ?thesis
    proof (cases z)
      case z: (OwnerNode oz fz rz dz sz cz)
      show ?thesis using yz unfolding y z by simp
    next
      case z: (RepositoryNode r'' s'' i'')
      have "lc (repo_name r) (repo_name r') \<le> 0" using xy unfolding x y by simp
      moreover have "lc (repo_name r') (repo_name r'') \<le> 0" using yz unfolding y z by simp
      ultimately have "lc (repo_name r) (repo_name r'') \<le> 0" by (rule tr)
      then show ?thesis unfolding x z by simp
    qed
  qed
qed

end
